theory Spec2Isabelle
  imports Complex_Main "HOL-Library.Word"
begin

unbundle bit_operations_syntax

section \<open>Data model of the scene graph (types/scene/wlr\_scene.c)\<close>

text \<open>
  A C object is modelled by the value of its fields together with its address: pointer
  comparisons of the source (\<open>scene_output == ignore\<close>, \<open>buffer != scene_buffer->buffer\<close>,
  \<open>primary_output == scene_output\<close>) are comparisons of addresses. Coordinates and sizes
  are C \<open>int\<close>s; they are modelled by integers in the range where the sums and differences
  of the source do not overflow. The one product of two \<open>int\<close>s in the source, the overlap
  area in \<open>scene_buffer_update_outputs\<close>, overflows for sizes well inside that range and is
  modelled with its wrap-around (\<open>c_int_mul\<close> below).
\<close>

type_synonym addr = nat

text \<open>A C \<open>double\<close> and a C \<open>float\<close> are modelled by their IEEE 754 bit patterns, so that
  \<open>memcmp\<close> of two floating-point objects is equality in the model: 0.0 and -0.0, which
  compare equal as numbers, are different objects, and a NaN is equal to itself.\<close>

type_synonym c_double = "64 word"

type_synonym c_float = "32 word"

text \<open>The C comparison \<open>d <= 0\<close> on a double: false for a NaN (exponent bits all ones and a
  non-zero mantissa), true for every other pattern with the sign bit set (the negative
  numbers, -0.0 and minus infinity) and for +0.0.\<close>

definition double_is_nan :: "c_double \<Rightarrow> bool" where
  "double_is_nan d = (take_bit 11 (drop_bit 52 d) = 2047 \<and> take_bit 52 d \<noteq> 0)"

definition double_le_zero :: "c_double \<Rightarrow> bool" where
  "double_le_zero d = (\<not> double_is_nan d \<and> (bit d 63 \<or> take_bit 63 d = 0))"

text \<open>The product of two C \<open>int\<close>s. Signed overflow is undefined behaviour in C; the model
  takes what the compiled code computes on the usual two's-complement targets, the product
  modulo \<open>2^32\<close> read as a signed 32-bit integer.\<close>

definition c_int_mul :: "int \<Rightarrow> int \<Rightarrow> int" where
  "c_int_mul a b = (a * b + 2147483648) mod 4294967296 - 2147483648"

text \<open>\<open>enum wl_output_transform\<close> of the Wayland protocol, in the order of its values 0..7.\<close>

datatype wl_output_transform =
    WL_OUTPUT_TRANSFORM_NORMAL
  | WL_OUTPUT_TRANSFORM_90
  | WL_OUTPUT_TRANSFORM_180
  | WL_OUTPUT_TRANSFORM_270
  | WL_OUTPUT_TRANSFORM_FLIPPED
  | WL_OUTPUT_TRANSFORM_FLIPPED_90
  | WL_OUTPUT_TRANSFORM_FLIPPED_180
  | WL_OUTPUT_TRANSFORM_FLIPPED_270

fun transform_value :: "wl_output_transform \<Rightarrow> nat" where
  "transform_value WL_OUTPUT_TRANSFORM_NORMAL = 0"
| "transform_value WL_OUTPUT_TRANSFORM_90 = 1"
| "transform_value WL_OUTPUT_TRANSFORM_180 = 2"
| "transform_value WL_OUTPUT_TRANSFORM_270 = 3"
| "transform_value WL_OUTPUT_TRANSFORM_FLIPPED = 4"
| "transform_value WL_OUTPUT_TRANSFORM_FLIPPED_90 = 5"
| "transform_value WL_OUTPUT_TRANSFORM_FLIPPED_180 = 6"
| "transform_value WL_OUTPUT_TRANSFORM_FLIPPED_270 = 7"

text \<open>The test \<open>transform & WL_OUTPUT_TRANSFORM_90\<close>: bit 0 of the enum value.\<close>

definition transform_has_90 :: "wl_output_transform \<Rightarrow> bool" where
  "transform_has_90 t = (transform_value t AND transform_value WL_OUTPUT_TRANSFORM_90 \<noteq> 0)"

record wlr_box =
  box_x :: int
  box_y :: int
  box_width :: int
  box_height :: int

record wlr_fbox =
  fbox_x :: c_double
  fbox_y :: c_double
  fbox_width :: c_double
  fbox_height :: c_double

record wlr_buffer =
  buffer_addr :: addr
  buffer_width :: int
  buffer_height :: int

text \<open>The common header \<open>struct wlr_scene_node\<close>. The type tag is the constructor of
  \<open>scene_node\<close> below; the parent pointer and the sibling link are the position of the
  node in the tree.\<close>

record wlr_scene_node =
  node_addr :: addr
  node_x :: int
  node_y :: int
  node_enabled :: bool

record wlr_scene_rect =
  rect_node :: wlr_scene_node
  rect_width :: int
  rect_height :: int
  rect_color :: "c_float list"

record wlr_scene_buffer =
  buf_node :: wlr_scene_node
  buffer :: "wlr_buffer option"
  texture :: "addr option"
  src_box :: wlr_fbox
  dst_width :: int
  dst_height :: int
  transform :: wl_output_transform
  active_outputs :: "64 word"
  primary_output :: "addr option"

datatype scene_node =
    Tree wlr_scene_node "scene_node list"
  | Rect wlr_scene_rect
  | Buffer wlr_scene_buffer

fun node_header :: "scene_node \<Rightarrow> wlr_scene_node" where
  "node_header (Tree h cs) = h"
| "node_header (Rect r) = rect_node r"
| "node_header (Buffer b) = buf_node b"

section \<open>Geometry\<close>

text \<open>Modelled from the spec: \<open>wlr_box_empty\<close>, \<open>wlr_box_intersection\<close> and
  \<open>wlr_fbox_empty\<close> live in util/box.c, which is not among the sources. The spec uses them
  as the test \<open>box(b) \<inter> viewport(o) \<noteq> \<emptyset>\<close> and as the box whose area is the overlap: a box
  is empty when its width or height is not positive, the intersection of two boxes is the
  box of the points in both, and the call reports whether that box is non-empty. For a box
  of doubles, which may be null, "not positive" is the C comparison \<open><= 0\<close> on the width
  and on the height.\<close>

definition wlr_box_empty :: "wlr_box \<Rightarrow> bool" where
  "wlr_box_empty b = (box_width b \<le> 0 \<or> box_height b \<le> 0)"

definition wlr_box_intersection :: "wlr_box \<Rightarrow> wlr_box \<Rightarrow> bool \<times> wlr_box" where
  "wlr_box_intersection box_a box_b =
     (if wlr_box_empty box_a \<or> wlr_box_empty box_b
      then (False, \<lparr>box_x = 0, box_y = 0, box_width = 0, box_height = 0\<rparr>)
      else
        let x1 = max (box_x box_a) (box_x box_b);
            y1 = max (box_y box_a) (box_y box_b);
            x2 = min (box_x box_a + box_width box_a) (box_x box_b + box_width box_b);
            y2 = min (box_y box_a + box_height box_a) (box_y box_b + box_height box_b);
            dest = \<lparr>box_x = x1, box_y = y1, box_width = x2 - x1, box_height = y2 - y1\<rparr>
        in (\<not> wlr_box_empty dest, dest))"

definition wlr_fbox_empty :: "wlr_fbox option \<Rightarrow> bool" where
  "wlr_fbox_empty box =
     (case box of
        None \<Rightarrow> True
      | Some b \<Rightarrow> double_le_zero (fbox_width b) \<or> double_le_zero (fbox_height b))"

text \<open>\<open>scene_node_get_size\<close>: the pair (width, height) written through the two out
  pointers.\<close>

fun scene_node_get_size :: "scene_node \<Rightarrow> int \<times> int" where
  "scene_node_get_size (Tree h cs) = (0, 0)"
| "scene_node_get_size (Rect r) = (rect_width r, rect_height r)"
| "scene_node_get_size (Buffer b) =
     (if dst_width b > 0 \<and> dst_height b > 0 then (dst_width b, dst_height b)
      else (case buffer b of
              Some buf \<Rightarrow>
                if transform_has_90 (transform b)
                then (buffer_height buf, buffer_width buf)
                else (buffer_width buf, buffer_height buf)
            | None \<Rightarrow> (0, 0)))"

section \<open>Scene outputs, signals and calls to collaborators\<close>

text \<open>Modelled from the spec: the output abstraction (\<open>struct wlr_output\<close> and
  \<open>wlr_output_effective_resolution\<close>) is an external collaborator that is not among the
  sources. It "provides effective resolution, scale, transform"; the effective resolution
  that \<open>wlr_output_effective_resolution\<close> writes through its out pointers is taken as the
  two fields \<open>effective_width\<close> and \<open>effective_height\<close>.\<close>

record wlr_output =
  output_addr :: addr
  effective_width :: int
  effective_height :: int
  output_scale :: real
  output_transform :: wl_output_transform

record wlr_scene_output =
  so_addr :: addr
  so_output :: wlr_output
  so_x :: int
  so_y :: int
  so_index :: int
  so_prev_scanout :: bool

text \<open>Signals are emitted synchronously to listeners that the engine does not know, and
  damage is added to accumulators owned by the outputs. Both are recorded as a trace: the
  list of emissions and collaborator calls, in the order the code makes them. An emission
  of a buffer node's signal records the fields of the node at that moment (what a
  listener reads through the node pointer) and the address of the scene output passed as
  the signal's data.\<close>

datatype event =
    Signal_destroy addr
  | Output_enter wlr_scene_buffer addr
  | Output_leave wlr_scene_buffer addr
  | Output_present wlr_scene_buffer addr
  | Scene_output_destroy addr
  | Damage_add_box addr wlr_box
  | Damage_add_whole addr
  | Damage_add addr "wlr_box list"
  | Output_attach_buffer addr wlr_buffer
  | Output_test addr
  | Output_rollback addr
  | Output_commit addr
  | Texture_destroy "addr option"
  | Buffer_lock wlr_buffer
  | Buffer_unlock "wlr_buffer option"
  | Free addr
  | Free_scene_output addr

section \<open>Output membership of a buffer node\<close>

text \<open>The viewport of a scene output: its layout position and the effective resolution of
  its output (the \<open>output_box\<close> of \<open>scene_buffer_update_outputs\<close>, the \<open>viewport_box\<close> of
  \<open>scene_output_scanout\<close>).\<close>

definition output_box :: "wlr_scene_output \<Rightarrow> wlr_box" where
  "output_box so =
     \<lparr>box_x = so_x so, box_y = so_y so,
      box_width = effective_width (so_output so),
      box_height = effective_height (so_output so)\<rparr>"

text \<open>\<open>1ull << scene_output->index\<close>.\<close>

definition output_mask :: "wlr_scene_output \<Rightarrow> 64 word" where
  "output_mask so = push_bit (nat (so_index so)) 1"

text \<open>First loop of \<open>scene_buffer_update_outputs\<close>. The loop state is
  \<open>largest_overlap\<close>, the buffer node (whose \<open>primary_output\<close> the loop assigns) and the
  local \<open>active_outputs\<close>.\<close>

fun update_outputs_primary ::
  "wlr_box \<Rightarrow> addr option \<Rightarrow> wlr_scene_output list \<Rightarrow>
   int \<times> wlr_scene_buffer \<times> 64 word \<Rightarrow> int \<times> wlr_scene_buffer \<times> 64 word" where
  "update_outputs_primary buffer_box ignore [] st = st"
| "update_outputs_primary buffer_box ignore (so # sos) (largest_overlap, sb, active) =
     (if ignore = Some (so_addr so)
      then update_outputs_primary buffer_box ignore sos (largest_overlap, sb, active)
      else
        let (intersects, intersection) = wlr_box_intersection buffer_box (output_box so)
        in if intersects
           then
             let overlap = c_int_mul (box_width intersection) (box_height intersection);
                 (largest_overlap', sb') =
                   (if overlap > largest_overlap
                    then (overlap, sb\<lparr>primary_output := Some (so_addr so)\<rparr>)
                    else (largest_overlap, sb))
             in update_outputs_primary buffer_box ignore sos
                  (largest_overlap', sb', active OR output_mask so)
           else update_outputs_primary buffer_box ignore sos (largest_overlap, sb, active))"

text \<open>Second loop of \<open>scene_buffer_update_outputs\<close>: the enter and leave signals.\<close>

fun update_outputs_signals ::
  "wlr_scene_buffer \<Rightarrow> 64 word \<Rightarrow> 64 word \<Rightarrow> wlr_scene_output list \<Rightarrow> event list" where
  "update_outputs_signals sb active old_active [] = []"
| "update_outputs_signals sb active old_active (so # sos) =
     (let mask = output_mask so;
          intersects = (active AND mask \<noteq> 0);
          intersects_before = (old_active AND mask \<noteq> 0)
      in (if intersects \<and> \<not> intersects_before then [Output_enter sb (so_addr so)]
          else if \<not> intersects \<and> intersects_before then [Output_leave sb (so_addr so)]
          else [])
         @ update_outputs_signals sb active old_active sos)"

definition scene_buffer_update_outputs ::
  "wlr_scene_buffer \<Rightarrow> int \<Rightarrow> int \<Rightarrow> wlr_scene_output list \<Rightarrow> addr option \<Rightarrow>
   wlr_scene_buffer \<times> event list" where
  "scene_buffer_update_outputs scene_buffer lx ly outputs ignore =
     (let (w, h) = scene_node_get_size (Buffer scene_buffer);
          buffer_box = \<lparr>box_x = lx, box_y = ly, box_width = w, box_height = h\<rparr>;
          (largest_overlap, sb1, active) =
            update_outputs_primary buffer_box ignore outputs
              (0, scene_buffer\<lparr>primary_output := None\<rparr>, 0);
          old_active = active_outputs sb1;
          sb2 = sb1\<lparr>active_outputs := active\<rparr>
      in (sb2, update_outputs_signals sb2 active old_active outputs))"

text \<open>\<open>_scene_node_update_outputs\<close>: the recursion over a subtree, and its loop over the
  children of a tree node. Disabled nodes are visited like the others.\<close>

fun scene_node_update_outputs_rec ::
  "scene_node \<Rightarrow> int \<Rightarrow> int \<Rightarrow> wlr_scene_output list \<Rightarrow> addr option \<Rightarrow>
   scene_node \<times> event list"
and update_outputs_children ::
  "scene_node list \<Rightarrow> int \<Rightarrow> int \<Rightarrow> wlr_scene_output list \<Rightarrow> addr option \<Rightarrow>
   scene_node list \<times> event list" where
  "scene_node_update_outputs_rec (Buffer b) lx ly outputs ignore =
     (let (b', evs) = scene_buffer_update_outputs b lx ly outputs ignore in (Buffer b', evs))"
| "scene_node_update_outputs_rec (Tree h children) lx ly outputs ignore =
     (let (children', evs) = update_outputs_children children lx ly outputs ignore
      in (Tree h children', evs))"
| "scene_node_update_outputs_rec (Rect r) lx ly outputs ignore = (Rect r, [])"
| "update_outputs_children [] lx ly outputs ignore = ([], [])"
| "update_outputs_children (child # rest) lx ly outputs ignore =
     (let (child', evs1) =
            scene_node_update_outputs_rec child
              (lx + node_x (node_header child)) (ly + node_y (node_header child))
              outputs ignore;
          (rest', evs2) = update_outputs_children rest lx ly outputs ignore
      in (child' # rest', evs1 @ evs2))"

section \<open>Node pointers and absolute coordinates\<close>

text \<open>A pointer to a node of the scene is the node together with the chain of its
  ancestors, nearest first, as the parent pointers of the source give it. A \<open>Crumb\<close> holds
  the header of one ancestor and the children of that ancestor that come before the node
  on the way (\<open>prevs\<close>, below it) and after it (\<open>nexts\<close>, above it); the scene root is the node whose chain is empty
  (\<open>parent == NULL\<close>).\<close>

datatype crumb = Crumb wlr_scene_node "scene_node list" "scene_node list"

type_synonym node_ptr = "scene_node \<times> crumb list"

fun crumb_header :: "crumb \<Rightarrow> wlr_scene_node" where
  "crumb_header (Crumb h prevs nexts) = h"

text \<open>The whole tree that a pointer points into.\<close>

fun scene_of :: "scene_node \<Rightarrow> crumb list \<Rightarrow> scene_node" where
  "scene_of n [] = n"
| "scene_of n (Crumb h prevs nexts # up) = scene_of (Tree h (prevs @ n # nexts)) up"

text \<open>The loop of \<open>wlr_scene_node_coords\<close>, walking the parent pointers up to the root.\<close>

fun coords_loop ::
  "wlr_scene_node \<Rightarrow> crumb list \<Rightarrow> int \<Rightarrow> int \<Rightarrow> bool \<Rightarrow> int \<times> int \<times> bool" where
  "coords_loop node [] lx ly enabled =
     (lx + node_x node, ly + node_y node, enabled \<and> node_enabled node)"
| "coords_loop node (c # up) lx ly enabled =
     coords_loop (crumb_header c) up
       (lx + node_x node) (ly + node_y node) (enabled \<and> node_enabled node)"

definition wlr_scene_node_coords :: "node_ptr \<Rightarrow> int \<times> int \<times> bool" where
  "wlr_scene_node_coords p = coords_loop (node_header (fst p)) (snd p) 0 0 True"

definition scene_node_update_outputs ::
  "wlr_scene_output list \<Rightarrow> node_ptr \<Rightarrow> addr option \<Rightarrow> scene_node \<times> event list" where
  "scene_node_update_outputs outputs p ignore =
     (let (lx, ly, enabled) = wlr_scene_node_coords p
      in scene_node_update_outputs_rec (fst p) lx ly outputs ignore)"

section \<open>Whole-node damage\<close>

text \<open>The C \<open>round\<close> (halves away from zero) and the scaling of a box. The scale of an
  output is the value of its \<open>float\<close>. The source converts the \<open>int\<close> to \<open>float\<close> and
  multiplies in single precision before it rounds; the model multiplies exactly, which is
  the same box whenever the products are representable in single precision (at scale 1
  with coordinates below \<open>2^24\<close>, as in the examples below) and may differ by one unit
  otherwise. The theorems below use the values of scaled boxes in such examples only.\<close>

definition c_round :: "real \<Rightarrow> int" where
  "c_round v = (if 0 \<le> v then \<lfloor>v + 1 / 2\<rfloor> else \<lceil>v - 1 / 2\<rceil>)"

definition scale_length :: "int \<Rightarrow> int \<Rightarrow> real \<Rightarrow> int" where
  "scale_length len offset scale =
     c_round (real_of_int (offset + len) * scale) - c_round (real_of_int offset * scale)"

definition scale_box :: "wlr_box \<Rightarrow> real \<Rightarrow> wlr_box" where
  "scale_box box scale =
     \<lparr>box_x = c_round (real_of_int (box_x box) * scale),
      box_y = c_round (real_of_int (box_y box) * scale),
      box_width = scale_length (box_width box) (box_x box) scale,
      box_height = scale_length (box_height box) (box_y box) scale\<rparr>"

text \<open>The loop over the outputs at the end of \<open>_scene_node_damage_whole\<close>.\<close>

fun damage_whole_outputs ::
  "wlr_scene_output list \<Rightarrow> int \<Rightarrow> int \<Rightarrow> int \<Rightarrow> int \<Rightarrow> event list" where
  "damage_whole_outputs [] lx ly width height = []"
| "damage_whole_outputs (so # sos) lx ly width height =
     Damage_add_box (so_addr so)
       (scale_box \<lparr>box_x = lx - so_x so, box_y = ly - so_y so,
                   box_width = width, box_height = height\<rparr>
          (output_scale (so_output so)))
     # damage_whole_outputs sos lx ly width height"

text \<open>\<open>_scene_node_damage_whole\<close>.\<close>

fun scene_node_damage_whole_rec ::
  "scene_node \<Rightarrow> wlr_scene_output list \<Rightarrow> int \<Rightarrow> int \<Rightarrow> event list"
and damage_whole_children ::
  "scene_node list \<Rightarrow> wlr_scene_output list \<Rightarrow> int \<Rightarrow> int \<Rightarrow> event list" where
  "scene_node_damage_whole_rec (Tree h children) outputs lx ly =
     (if \<not> node_enabled h then []
      else damage_whole_children children outputs lx ly @
           (let (width, height) = scene_node_get_size (Tree h children)
            in damage_whole_outputs outputs lx ly width height))"
| "scene_node_damage_whole_rec (Rect r) outputs lx ly =
     (if \<not> node_enabled (rect_node r) then []
      else (let (width, height) = scene_node_get_size (Rect r)
            in damage_whole_outputs outputs lx ly width height))"
| "scene_node_damage_whole_rec (Buffer b) outputs lx ly =
     (if \<not> node_enabled (buf_node b) then []
      else (let (width, height) = scene_node_get_size (Buffer b)
            in damage_whole_outputs outputs lx ly width height))"
| "damage_whole_children [] outputs lx ly = []"
| "damage_whole_children (child # rest) outputs lx ly =
     scene_node_damage_whole_rec child outputs
       (lx + node_x (node_header child)) (ly + node_y (node_header child))
     @ damage_whole_children rest outputs lx ly"

definition scene_node_damage_whole :: "wlr_scene_output list \<Rightarrow> node_ptr \<Rightarrow> event list" where
  "scene_node_damage_whole outputs p =
     (if outputs = [] then []
      else let (lx, ly, enabled) = wlr_scene_node_coords p
           in if \<not> enabled then []
              else scene_node_damage_whole_rec (fst p) outputs lx ly)"

section \<open>Setters\<close>

text \<open>Every setter takes the outputs of the scene that contains the node (what
  \<open>scene_node_get_root\<close> reaches through the parent pointers) and the pointer, and returns
  the pointer after the call together with the signals and damage of the call.\<close>

fun map_header :: "(wlr_scene_node \<Rightarrow> wlr_scene_node) \<Rightarrow> scene_node \<Rightarrow> scene_node" where
  "map_header f (Tree h cs) = Tree (f h) cs"
| "map_header f (Rect r) = Rect (r\<lparr>rect_node := f (rect_node r)\<rparr>)"
| "map_header f (Buffer b) = Buffer (b\<lparr>buf_node := f (buf_node b)\<rparr>)"

definition wlr_scene_node_set_enabled ::
  "wlr_scene_output list \<Rightarrow> node_ptr \<Rightarrow> bool \<Rightarrow> node_ptr \<times> event list" where
  "wlr_scene_node_set_enabled outputs p enabled =
     (case p of (node, up) \<Rightarrow>
        if node_enabled (node_header node) = enabled then (p, [])
        else
          let evs1 = scene_node_damage_whole outputs (node, up);
              node' = map_header (\<lambda>h. h\<lparr>node_enabled := enabled\<rparr>) node;
              evs2 = scene_node_damage_whole outputs (node', up)
          in ((node', up), evs1 @ evs2))"

definition wlr_scene_node_set_position ::
  "wlr_scene_output list \<Rightarrow> node_ptr \<Rightarrow> int \<Rightarrow> int \<Rightarrow> node_ptr \<times> event list" where
  "wlr_scene_node_set_position outputs p x y =
     (case p of (node, up) \<Rightarrow>
        if node_x (node_header node) = x \<and> node_y (node_header node) = y then (p, [])
        else
          let evs1 = scene_node_damage_whole outputs (node, up);
              node' = map_header (\<lambda>h. h\<lparr>node_x := x, node_y := y\<rparr>) node;
              evs2 = scene_node_damage_whole outputs (node', up);
              (node'', evs3) = scene_node_update_outputs outputs (node', up) None
          in ((node'', up), evs1 @ evs2 @ evs3))"

type_synonym rect_ptr = "wlr_scene_rect \<times> crumb list"
type_synonym buffer_ptr = "wlr_scene_buffer \<times> crumb list"

definition wlr_scene_rect_set_size ::
  "wlr_scene_output list \<Rightarrow> rect_ptr \<Rightarrow> int \<Rightarrow> int \<Rightarrow> rect_ptr \<times> event list" where
  "wlr_scene_rect_set_size outputs p width height =
     (case p of (rect, up) \<Rightarrow>
        if rect_width rect = width \<and> rect_height rect = height then (p, [])
        else
          let evs1 = scene_node_damage_whole outputs (Rect rect, up);
              rect' = rect\<lparr>rect_width := width, rect_height := height\<rparr>;
              evs2 = scene_node_damage_whole outputs (Rect rect', up)
          in ((rect', up), evs1 @ evs2))"

text \<open>\<open>memcmp\<close> of the two colour arrays (\<open>float[4]\<close>): equality of the bit patterns of
  the four components.\<close>

definition wlr_scene_rect_set_color ::
  "wlr_scene_output list \<Rightarrow> rect_ptr \<Rightarrow> c_float list \<Rightarrow> rect_ptr \<times> event list" where
  "wlr_scene_rect_set_color outputs p color =
     (case p of (rect, up) \<Rightarrow>
        if rect_color rect = color then (p, [])
        else
          let rect' = rect\<lparr>rect_color := color\<rparr>
          in ((rect', up), scene_node_damage_whole outputs (Rect rect', up)))"

text \<open>\<open>scene_node_update_outputs(&scene_buffer->node, ignore)\<close> for a pointer that is known
  to point to a buffer node: the coordinates, then the buffer branch of
  \<open>_scene_node_update_outputs\<close>.\<close>

definition scene_buffer_node_update_outputs ::
  "wlr_scene_output list \<Rightarrow> buffer_ptr \<Rightarrow> addr option \<Rightarrow> wlr_scene_buffer \<times> event list" where
  "scene_buffer_node_update_outputs outputs p ignore =
     (case p of (scene_buffer, up) \<Rightarrow>
        let (lx, ly, enabled) = wlr_scene_node_coords (Buffer scene_buffer, up)
        in scene_buffer_update_outputs scene_buffer lx ly outputs ignore)"

text \<open>\<open>wlr_scene_buffer_set_source_box\<close>. The \<open>memcmp\<close> of the two boxes (four doubles, no
  padding) is equality of their bit patterns; \<open>memset\<close> to zero gives four times +0.0.\<close>

definition wlr_scene_buffer_set_source_box ::
  "wlr_scene_output list \<Rightarrow> buffer_ptr \<Rightarrow> wlr_fbox option \<Rightarrow> buffer_ptr \<times> event list" where
  "wlr_scene_buffer_set_source_box outputs p box =
     (case p of (scene_buffer, up) \<Rightarrow>
        let cur = src_box scene_buffer
        in if (wlr_fbox_empty box \<and> wlr_fbox_empty (Some cur)) \<or> (box \<noteq> None \<and> box = Some cur)
           then (p, [])
           else
             let scene_buffer' =
                   scene_buffer\<lparr>src_box :=
                     (case box of
                        Some b \<Rightarrow> b
                      | None \<Rightarrow> \<lparr>fbox_x = 0, fbox_y = 0, fbox_width = 0, fbox_height = 0\<rparr>)\<rparr>
             in ((scene_buffer', up),
                 scene_node_damage_whole outputs (Buffer scene_buffer', up)))"

definition wlr_scene_buffer_set_dest_size ::
  "wlr_scene_output list \<Rightarrow> buffer_ptr \<Rightarrow> int \<Rightarrow> int \<Rightarrow> buffer_ptr \<times> event list" where
  "wlr_scene_buffer_set_dest_size outputs p width height =
     (case p of (scene_buffer, up) \<Rightarrow>
        if dst_width scene_buffer = width \<and> dst_height scene_buffer = height then (p, [])
        else
          let evs1 = scene_node_damage_whole outputs (Buffer scene_buffer, up);
              sb1 = scene_buffer\<lparr>dst_width := width, dst_height := height\<rparr>;
              evs2 = scene_node_damage_whole outputs (Buffer sb1, up);
              (sb2, evs3) = scene_buffer_node_update_outputs outputs (sb1, up) None
          in ((sb2, up), evs1 @ evs2 @ evs3))"

definition wlr_scene_buffer_set_transform ::
  "wlr_scene_output list \<Rightarrow> buffer_ptr \<Rightarrow> wl_output_transform \<Rightarrow> buffer_ptr \<times> event list" where
  "wlr_scene_buffer_set_transform outputs p t =
     (case p of (scene_buffer, up) \<Rightarrow>
        if transform scene_buffer = t then (p, [])
        else
          let evs1 = scene_node_damage_whole outputs (Buffer scene_buffer, up);
              sb1 = scene_buffer\<lparr>transform := t\<rparr>;
              evs2 = scene_node_damage_whole outputs (Buffer sb1, up);
              (sb2, evs3) = scene_buffer_node_update_outputs outputs (sb1, up) None
          in ((sb2, up), evs1 @ evs2 @ evs3))"

text \<open>\<open>wlr_scene_buffer_set_buffer_with_damage\<close>. The two pointers \<open>buffer\<close> and
  \<open>scene_buffer->buffer\<close> are compared as addresses. A damage region is a list of boxes.
  The arithmetic that maps the buffer-local region to the coordinates of one output
  (\<open>wlr_region_transform\<close>, \<open>pixman_region32_intersect_rect\<close>, \<open>wlr_region_scale_xy\<close> and
  \<open>pixman_region32_translate\<close>, in floating point, lines 386 to 425) belongs to
  collaborators and is the parameter \<open>region_to_output\<close>. A failed \<open>assert\<close> aborts
  (\<open>Assertion_failed\<close>); \<open>Invalid_pointer\<close> marks a pointer argument that does not point to
  a node of the expected type in the scene, which the C types and the callers exclude.\<close>

datatype error = Assertion_failed | Invalid_pointer

definition wlr_scene_buffer_set_buffer_with_damage ::
  "(wlr_scene_buffer \<Rightarrow> wlr_buffer \<Rightarrow> int \<Rightarrow> int \<Rightarrow> wlr_scene_output \<Rightarrow> wlr_box list \<Rightarrow> wlr_box list) \<Rightarrow>
   wlr_scene_output list \<Rightarrow> buffer_ptr \<Rightarrow> wlr_buffer option \<Rightarrow> wlr_box list option \<Rightarrow>
   error + (buffer_ptr \<times> event list)" where
  "wlr_scene_buffer_set_buffer_with_damage region_to_output outputs p buf damage =
     (case p of (scene_buffer, up) \<Rightarrow>
        if buf = None \<and> damage \<noteq> None then Inl Assertion_failed
        else
          let (sb3, evs_a) =
                (if map_option buffer_addr buf \<noteq> map_option buffer_addr (buffer scene_buffer)
                 then
                   let evs1 = (if damage = None
                               then scene_node_damage_whole outputs (Buffer scene_buffer, up)
                               else []);
                       evs2 = [Texture_destroy (texture scene_buffer)];
                       sb1 = scene_buffer\<lparr>texture := None\<rparr>;
                       evs3 = [Buffer_unlock (buffer sb1)];
                       (sb2, evs4) =
                         (case buf of
                            Some b \<Rightarrow> (sb1\<lparr>buffer := Some b\<rparr>, [Buffer_lock b])
                          | None \<Rightarrow> (sb1\<lparr>buffer := None\<rparr>, []));
                       (sb3, evs5) = scene_buffer_node_update_outputs outputs (sb2, up) None;
                       evs6 = (if damage = None
                               then scene_node_damage_whole outputs (Buffer sb3, up)
                               else [])
                   in (sb3, evs1 @ evs2 @ evs3 @ evs4 @ evs5 @ evs6)
                 else (scene_buffer, []))
          in (case damage of
                None \<Rightarrow> Inr ((sb3, up), evs_a)
              | Some region \<Rightarrow>
                  (case buf of
                     None \<Rightarrow> Inl Assertion_failed
                   | Some b \<Rightarrow>
                       let (lx, ly, enabled) = wlr_scene_node_coords (Buffer sb3, up)
                       in if \<not> enabled then Inr ((sb3, up), evs_a)
                          else Inr ((sb3, up),
                                 evs_a @
                                 map (\<lambda>so. Damage_add (so_addr so)
                                              (region_to_output sb3 b lx ly so region))
                                   outputs))))"

definition wlr_scene_buffer_set_buffer ::
  "(wlr_scene_buffer \<Rightarrow> wlr_buffer \<Rightarrow> int \<Rightarrow> int \<Rightarrow> wlr_scene_output \<Rightarrow> wlr_box list \<Rightarrow> wlr_box list) \<Rightarrow>
   wlr_scene_output list \<Rightarrow> buffer_ptr \<Rightarrow> wlr_buffer option \<Rightarrow>
   error + (buffer_ptr \<times> event list)" where
  "wlr_scene_buffer_set_buffer region_to_output outputs p buf =
     wlr_scene_buffer_set_buffer_with_damage region_to_output outputs p buf None"

text \<open>The node of a tree that lives at an address, as a pointer: the search walks the
  tree and keeps the chain of ancestors.\<close>

fun find_node :: "addr \<Rightarrow> scene_node \<Rightarrow> crumb list \<Rightarrow> node_ptr option"
and find_child ::
  "addr \<Rightarrow> wlr_scene_node \<Rightarrow> scene_node list \<Rightarrow> scene_node list \<Rightarrow> crumb list \<Rightarrow>
   node_ptr option" where
  "find_node a (Tree h children) up =
     (if node_addr h = a then Some (Tree h children, up) else find_child a h [] children up)"
| "find_node a (Rect r) up = (if node_addr (rect_node r) = a then Some (Rect r, up) else None)"
| "find_node a (Buffer b) up = (if node_addr (buf_node b) = a then Some (Buffer b, up) else None)"
| "find_child a h prevs [] up = None"
| "find_child a h prevs (child # rest) up =
     (case find_node a child (Crumb h prevs rest # up) of
        Some p \<Rightarrow> Some p
      | None \<Rightarrow> find_child a h (prevs @ [child]) rest up)"

text \<open>\<open>wlr_scene_node_reparent\<close>. The new parent is given by its address (\<open>None\<close> for
  \<open>NULL\<close>). The loop that asserts that no ancestor of the new parent is the node walks the
  chain of the new parent in the tree as it is before the move; the node is then unlinked
  and becomes the last child of the new parent.\<close>

definition wlr_scene_node_reparent ::
  "wlr_scene_output list \<Rightarrow> node_ptr \<Rightarrow> addr option \<Rightarrow> error + (node_ptr \<times> event list)" where
  "wlr_scene_node_reparent outputs p new_parent =
     (case p of (node, up) \<Rightarrow>
        (case new_parent of
           None \<Rightarrow> Inl Assertion_failed
         | Some a \<Rightarrow>
             if (case up of [] \<Rightarrow> False | c # cs \<Rightarrow> node_addr (crumb_header c) = a)
             then Inr (p, [])
             else
               (case find_node a (scene_of node up) [] of
                  Some (Tree h children, new_up) \<Rightarrow>
                    if node_addr (node_header node)
                         \<in> set (node_addr h # map (\<lambda>c. node_addr (crumb_header c)) new_up)
                    then Inl Assertion_failed
                    else
                      (case up of
                         [] \<Rightarrow> Inl Assertion_failed
                       | Crumb parent prevs nexts # up' \<Rightarrow>
                           let evs1 = scene_node_damage_whole outputs (node, up)
                           in (case find_node a (scene_of (Tree parent (prevs @ nexts)) up') [] of
                                 Some (Tree h1 children1, new_up1) \<Rightarrow>
                                   let p1 = (node, Crumb h1 children1 [] # new_up1);
                                       evs2 = scene_node_damage_whole outputs p1;
                                       (node', evs3) = scene_node_update_outputs outputs p1 None
                                   in Inr ((node', snd p1), evs1 @ evs2 @ evs3)
                               | _ \<Rightarrow> Inl Invalid_pointer))
                | _ \<Rightarrow> Inl Invalid_pointer)))"

section \<open>The scene and its outputs\<close>

datatype wlr_scene_debug_damage_option =
    WLR_SCENE_DEBUG_DAMAGE_NONE
  | WLR_SCENE_DEBUG_DAMAGE_RERENDER
  | WLR_SCENE_DEBUG_DAMAGE_HIGHLIGHT

text \<open>\<open>struct wlr_scene\<close>: the root tree node, the list of scene outputs and the debug
  option. (The presentation back-reference and the highlight regions play no part in
  the operations modelled here.)\<close>

record wlr_scene =
  scene_tree :: scene_node
  scene_outputs :: "wlr_scene_output list"
  scene_debug_damage_option :: wlr_scene_debug_damage_option

text \<open>The loop of \<open>wlr_scene_output_create\<close> that looks for the index of the new output.
  Its state is \<open>prev_output_index\<close> and \<open>prev_output_link\<close>; the link is kept as the outputs
  already passed (the new output is inserted right after them) and the outputs left.\<close>

fun create_index_loop ::
  "int \<Rightarrow> wlr_scene_output list \<Rightarrow> wlr_scene_output list \<Rightarrow>
   int \<times> wlr_scene_output list \<times> wlr_scene_output list" where
  "create_index_loop prev_output_index passed [] = (prev_output_index, passed, [])"
| "create_index_loop prev_output_index passed (current_output # rest) =
     (if prev_output_index + 1 \<noteq> so_index current_output
      then (prev_output_index, passed, current_output # rest)
      else create_index_loop (so_index current_output) (passed @ [current_output]) rest)"

text \<open>\<open>wlr_scene_output_create\<close>. The two allocations are outcomes of the environment:
  \<open>calloc_result\<close> is the address of the new object or \<open>None\<close> for \<open>NULL\<close>, and \<open>damage_ok\<close>
  tells whether \<open>wlr_output_damage_create\<close> succeeded. The result is \<open>NULL\<close> (\<open>None\<close>) with the
  scene untouched when an allocation fails.\<close>

definition wlr_scene_output_create ::
  "wlr_scene \<Rightarrow> wlr_output \<Rightarrow> addr option \<Rightarrow> bool \<Rightarrow>
   error + (wlr_scene \<times> wlr_scene_output option \<times> event list)" where
  "wlr_scene_output_create scene output calloc_result damage_ok =
     (case calloc_result of
        None \<Rightarrow> Inr (scene, None, [])
      | Some a \<Rightarrow>
          if \<not> damage_ok then Inr (scene, None, [])
          else
            let (prev_output_index, passed, rest) =
                  create_index_loop (- 1) [] (scene_outputs scene);
                scene_output =
                  \<lparr>so_addr = a, so_output = output, so_x = 0, so_y = 0,
                   so_index = prev_output_index + 1, so_prev_scanout = False\<rparr>
            in if \<not> so_index scene_output < 64 then Inl Assertion_failed
               else
                 let scene1 = scene\<lparr>scene_outputs := passed @ scene_output # rest\<rparr>;
                     evs1 = [Damage_add_whole (so_addr scene_output)];
                     (tree', evs2) =
                       scene_node_update_outputs (scene_outputs scene1) (scene_tree scene1, []) None
                 in Inr (scene1\<lparr>scene_tree := tree'\<rparr>, Some scene_output, evs1 @ evs2))"

text \<open>\<open>wlr_scene_output_destroy\<close>; the pointer is the address of a scene output of the
  scene, or \<open>None\<close> for \<open>NULL\<close>.\<close>

definition wlr_scene_output_destroy ::
  "wlr_scene \<Rightarrow> addr option \<Rightarrow> wlr_scene \<times> event list" where
  "wlr_scene_output_destroy scene scene_output =
     (case scene_output of
        None \<Rightarrow> (scene, [])
      | Some a \<Rightarrow>
          let evs1 = [Scene_output_destroy a];
              (tree', evs2) =
                scene_node_update_outputs (scene_outputs scene) (scene_tree scene, []) (Some a)
          in (scene\<lparr>scene_tree := tree',
                     scene_outputs := filter (\<lambda>so. so_addr so \<noteq> a) (scene_outputs scene)\<rparr>,
              evs1 @ evs2 @ [Free_scene_output a]))"

text \<open>\<open>wlr_scene_output_set_position\<close> on the scene output at address \<open>a\<close>.\<close>

definition wlr_scene_output_set_position ::
  "wlr_scene \<Rightarrow> addr \<Rightarrow> int \<Rightarrow> int \<Rightarrow> wlr_scene \<times> event list" where
  "wlr_scene_output_set_position scene a lx ly =
     (case find (\<lambda>so. so_addr so = a) (scene_outputs scene) of
        None \<Rightarrow> (scene, [])
      | Some scene_output \<Rightarrow>
          if so_x scene_output = lx \<and> so_y scene_output = ly then (scene, [])
          else
            let outputs' =
                  map (\<lambda>so. if so_addr so = a then so\<lparr>so_x := lx, so_y := ly\<rparr> else so)
                    (scene_outputs scene);
                evs1 = [Damage_add_whole a];
                (tree', evs2) = scene_node_update_outputs outputs' (scene_tree scene, []) None
            in (scene\<lparr>scene_tree := tree', scene_outputs := outputs'\<rparr>, evs1 @ evs2))"

text \<open>\<open>scene_output_handle_mode\<close> and \<open>scene_output_handle_commit\<close>, the listeners of the
  output's \<open>mode\<close> and \<open>commit\<close> events. They run after the output has changed, so the scene
  they receive already holds the new state of the output. \<open>committed_geometry\<close> is the test
  \<open>event->committed & (MODE | TRANSFORM | SCALE)\<close>.\<close>

definition scene_output_handle_mode :: "wlr_scene \<Rightarrow> wlr_scene \<times> event list" where
  "scene_output_handle_mode scene =
     (let (tree', evs) =
            scene_node_update_outputs (scene_outputs scene) (scene_tree scene, []) None
      in (scene\<lparr>scene_tree := tree'\<rparr>, evs))"

definition scene_output_handle_commit :: "wlr_scene \<Rightarrow> bool \<Rightarrow> wlr_scene \<times> event list" where
  "scene_output_handle_commit scene committed_geometry =
     (if committed_geometry
      then let (tree', evs) =
                 scene_node_update_outputs (scene_outputs scene) (scene_tree scene, []) None
           in (scene\<lparr>scene_tree := tree'\<rparr>, evs)
      else (scene, []))"

section \<open>Direct scan-out\<close>






section \<open>Destruction of a subtree\<close>

text \<open>The loop of \<open>wlr_scene_node_destroy\<close> that emits \<open>output_leave\<close> for a buffer
  node.\<close>

fun destroy_leave_outputs ::
  "wlr_scene_buffer \<Rightarrow> 64 word \<Rightarrow> wlr_scene_output list \<Rightarrow> event list" where
  "destroy_leave_outputs scene_buffer active [] = []"
| "destroy_leave_outputs scene_buffer active (so # sos) =
     (if active AND output_mask so \<noteq> 0 then [Output_leave scene_buffer (so_addr so)] else [])
     @ destroy_leave_outputs scene_buffer active sos"

text \<open>\<open>wlr_scene_node_destroy\<close> for a node that has a parent, and its loop over the
  children of a tree node. When a child is destroyed the children before it have already
  been unlinked and freed, so it is the first child of its parent.\<close>

fun scene_node_destroy_rec ::
  "wlr_scene_output list \<Rightarrow> crumb list \<Rightarrow> scene_node \<Rightarrow> event list"
and destroy_children ::
  "wlr_scene_output list \<Rightarrow> crumb list \<Rightarrow> wlr_scene_node \<Rightarrow> scene_node list \<Rightarrow> event list" where
  "scene_node_destroy_rec outputs up (Buffer scene_buffer) =
     scene_node_damage_whole outputs (Buffer scene_buffer, up)
     @ [Signal_destroy (node_addr (buf_node scene_buffer))]
     @ (if active_outputs scene_buffer \<noteq> 0
        then destroy_leave_outputs scene_buffer (active_outputs scene_buffer) outputs
        else [])
     @ [Texture_destroy (texture scene_buffer), Buffer_unlock (buffer scene_buffer)]
     @ [Free (node_addr (buf_node scene_buffer))]"
| "scene_node_destroy_rec outputs up (Rect r) =
     scene_node_damage_whole outputs (Rect r, up)
     @ [Signal_destroy (node_addr (rect_node r))]
     @ [Free (node_addr (rect_node r))]"
| "scene_node_destroy_rec outputs up (Tree h children) =
     scene_node_damage_whole outputs (Tree h children, up)
     @ [Signal_destroy (node_addr h)]
     @ destroy_children outputs up h children
     @ [Free (node_addr h)]"
| "destroy_children outputs up h [] = []"
| "destroy_children outputs up h (child # rest) =
     scene_node_destroy_rec outputs (Crumb h [] rest # up) child
     @ destroy_children outputs up h rest"

text \<open>The loop of the root branch that destroys every scene output.\<close>

fun destroy_scene_outputs :: "wlr_scene \<Rightarrow> wlr_scene_output list \<Rightarrow> wlr_scene \<times> event list" where
  "destroy_scene_outputs scene [] = (scene, [])"
| "destroy_scene_outputs scene (so # rest) =
     (let (scene1, evs1) = wlr_scene_output_destroy scene (Some (so_addr so));
          (scene2, evs2) = destroy_scene_outputs scene1 rest
      in (scene2, evs1 @ evs2))"

text \<open>\<open>wlr_scene_node_destroy\<close>. The pointer is \<open>None\<close> for \<open>NULL\<close>, otherwise it points into
  the tree of the scene. The result is the scene that is left, \<open>None\<close> when the root (and
  with it the scene) has been destroyed.\<close>

definition wlr_scene_node_destroy ::
  "wlr_scene \<Rightarrow> node_ptr option \<Rightarrow> wlr_scene option \<times> event list" where
  "wlr_scene_node_destroy scene p =
     (case p of
        None \<Rightarrow> (Some scene, [])
      | Some (node, Crumb parent prevs nexts # up) \<Rightarrow>
          (Some (scene\<lparr>scene_tree := scene_of (Tree parent (prevs @ nexts)) up\<rparr>),
           scene_node_destroy_rec (scene_outputs scene) (Crumb parent prevs nexts # up) node)
      | Some (Tree h children, []) \<Rightarrow>
          let evs1 = scene_node_damage_whole (scene_outputs scene) (Tree h children, []);
              evs2 = [Signal_destroy (node_addr h)];
              (scene1, evs3) = destroy_scene_outputs scene (scene_outputs scene);
              evs4 = (case scene_tree scene1 of
                        Tree h1 children1 \<Rightarrow> destroy_children (scene_outputs scene1) [] h1 children1
                      | _ \<Rightarrow> [])
          in (None, evs1 @ evs2 @ evs3 @ evs4 @ [Free (node_addr h)])
      | Some (node, []) \<Rightarrow> (None, scene_node_destroy_rec (scene_outputs scene) [] node))"

section \<open>Specification vocabulary for output membership\<close>

text \<open>The scene-space box of a buffer node whose absolute position is \<open>(lx, ly)\<close>, whether a
  box intersects the viewport of a scene output, and the area of the overlap (0 when they
  do not intersect).\<close>

definition buffer_box :: "wlr_scene_buffer \<Rightarrow> int \<Rightarrow> int \<Rightarrow> wlr_box" where
  "buffer_box b lx ly =
     \<lparr>box_x = lx, box_y = ly,
      box_width = fst (scene_node_get_size (Buffer b)),
      box_height = snd (scene_node_get_size (Buffer b))\<rparr>"

definition intersects :: "wlr_box \<Rightarrow> wlr_scene_output \<Rightarrow> bool" where
  "intersects bb so = fst (wlr_box_intersection bb (output_box so))"

definition overlap_area :: "wlr_box \<Rightarrow> wlr_scene_output \<Rightarrow> int" where
  "overlap_area bb so =
     (let (i, box) = wlr_box_intersection bb (output_box so)
      in if i then box_width box * box_height box else 0)"

text \<open>The value of the local \<open>overlap\<close> that the first loop computes for an output that
  intersects the box (0 for one that does not): the overlap area as a C \<open>int\<close>.\<close>

definition computed_overlap :: "wlr_box \<Rightarrow> wlr_scene_output \<Rightarrow> int" where
  "computed_overlap bb so =
     (let (i, box) = wlr_box_intersection bb (output_box so)
      in if i then c_int_mul (box_width box) (box_height box) else 0)"

text \<open>The overlap of the box with every output is at most \<open>INT_MAX\<close>; and a condition on
  the outputs alone that gives it for every box: the area of every viewport is at most
  \<open>INT_MAX\<close>.\<close>

definition overlap_fits :: "wlr_box \<Rightarrow> wlr_scene_output list \<Rightarrow> bool" where
  "overlap_fits bb outs = list_all (\<lambda>so. overlap_area bb so \<le> 2147483647) outs"

definition outputs_fit :: "wlr_scene_output list \<Rightarrow> bool" where
  "outputs_fit outs =
     list_all (\<lambda>so. box_width (output_box so) * box_height (output_box so) \<le> 2147483647) outs"

text \<open>The outputs list of a scene: distinct objects, sorted by strictly increasing index,
  every index in [0, 64).\<close>

definition outputs_wf :: "wlr_scene_output list \<Rightarrow> bool" where
  "outputs_wf outs =
     (distinct (map so_addr outs) \<and> sorted_wrt (<) (map so_index outs) \<and>
      list_all (\<lambda>so. 0 \<le> so_index so \<and> so_index so < 64) outs)"

text \<open>\<open>p\<close> is the primary output for the box \<open>bb\<close>: null when no output intersects,
  otherwise an intersecting output whose overlap is at least that of every output and
  strictly larger than that of every output before it in the list.\<close>

definition primary_is :: "wlr_box \<Rightarrow> wlr_scene_output list \<Rightarrow> addr option \<Rightarrow> bool" where
  "primary_is bb outs p =
     (case p of
        None \<Rightarrow> list_all (\<lambda>so. \<not> intersects bb so) outs
      | Some a \<Rightarrow>
          (\<exists>pre so post. outs = pre @ so # post \<and> so_addr so = a \<and> intersects bb so \<and>
             list_all (\<lambda>p. overlap_area bb p < overlap_area bb so) pre \<and>
             list_all (\<lambda>q. overlap_area bb q \<le> overlap_area bb so) post))"

text \<open>The two halves of the membership invariant of a buffer node at \<open>(lx, ly)\<close>: the bit
  of every output is set exactly when the box of the node intersects the viewport of the
  output; and, in addition, the primary output is the one the box and the viewports
  determine.\<close>

definition bits_ok :: "wlr_scene_output list \<Rightarrow> wlr_scene_buffer \<Rightarrow> int \<Rightarrow> int \<Rightarrow> bool" where
  "bits_ok outs b lx ly =
     list_all (\<lambda>so. bit (active_outputs b) (nat (so_index so)) = intersects (buffer_box b lx ly) so) outs"

definition membership_ok :: "wlr_scene_output list \<Rightarrow> wlr_scene_buffer \<Rightarrow> int \<Rightarrow> int \<Rightarrow> bool" where
  "membership_ok outs b lx ly =
     (bits_ok outs b lx ly \<and> primary_is (buffer_box b lx ly) outs (primary_output b))"

text \<open>No bit of \<open>active_outputs\<close> is set outside the indices of the scene's outputs.\<close>

definition active_within :: "wlr_scene_output list \<Rightarrow> wlr_scene_buffer \<Rightarrow> bool" where
  "active_within outs b =
     (\<forall>i. bit (active_outputs b) i \<longrightarrow> i \<in> (\<lambda>so. nat (so_index so)) ` set outs)"

text \<open>The buffer nodes of a subtree, each with its absolute position, where \<open>(lx, ly)\<close> is
  the absolute position of the root of the subtree.\<close>

fun buffers_at :: "scene_node \<Rightarrow> int \<Rightarrow> int \<Rightarrow> (wlr_scene_buffer \<times> int \<times> int) list"
and buffers_at_children :: "scene_node list \<Rightarrow> int \<Rightarrow> int \<Rightarrow> (wlr_scene_buffer \<times> int \<times> int) list" where
  "buffers_at (Buffer b) lx ly = [(b, lx, ly)]"
| "buffers_at (Rect r) lx ly = []"
| "buffers_at (Tree h children) lx ly = buffers_at_children children lx ly"
| "buffers_at_children [] lx ly = []"
| "buffers_at_children (child # rest) lx ly =
     buffers_at child (lx + node_x (node_header child)) (ly + node_y (node_header child))
     @ buffers_at_children rest lx ly"

text \<open>The absolute position of the parent that a chain of ancestors leads to, and the
  buffer nodes of the scene that lie outside the subtree a pointer points to.\<close>

fun crumbs_origin :: "crumb list \<Rightarrow> int \<times> int" where
  "crumbs_origin [] = (0, 0)"
| "crumbs_origin (c # up) =
     (node_x (crumb_header c) + fst (crumbs_origin up),
      node_y (crumb_header c) + snd (crumbs_origin up))"

fun context_buffers :: "crumb list \<Rightarrow> (wlr_scene_buffer \<times> int \<times> int) list" where
  "context_buffers [] = []"
| "context_buffers (Crumb h prevs nexts # up) =
     buffers_at_children prevs
       (fst (crumbs_origin (Crumb h prevs nexts # up)))
       (snd (crumbs_origin (Crumb h prevs nexts # up)))
     @ buffers_at_children nexts
       (fst (crumbs_origin (Crumb h prevs nexts # up)))
       (snd (crumbs_origin (Crumb h prevs nexts # up)))
     @ context_buffers up"

text \<open>All buffer nodes of a scene with their absolute positions, a property of every
  buffer node of a scene at its position, and the membership invariant of the scene:
  every buffer node has the active outputs and the primary output that its box and the
  viewports of the outputs determine.\<close>

definition scene_buffers :: "scene_node \<Rightarrow> (wlr_scene_buffer \<times> int \<times> int) list" where
  "scene_buffers t =
     buffers_at t (node_x (node_header t)) (node_y (node_header t))"

definition scene_all :: "(wlr_scene_buffer \<Rightarrow> int \<Rightarrow> int \<Rightarrow> bool) \<Rightarrow> scene_node \<Rightarrow> bool" where
  "scene_all P t = list_all (\<lambda>(b, lx, ly). P b lx ly) (scene_buffers t)"

definition scene_membership :: "wlr_scene_output list \<Rightarrow> scene_node \<Rightarrow> bool" where
  "scene_membership outs t =
     list_all (\<lambda>(b, lx, ly). membership_ok outs b lx ly) (scene_buffers t)"

text \<open>The half of the invariant that is about \<open>active_outputs\<close>, for every buffer node of a
  scene.\<close>

definition scene_bits :: "wlr_scene_output list \<Rightarrow> scene_node \<Rightarrow> bool" where
  "scene_bits outs t = list_all (\<lambda>(b, lx, ly). bits_ok outs b lx ly) (scene_buffers t)"

text \<open>How many \<open>output_enter\<close> signals a trace holds for the buffer node at address \<open>n\<close>
  and the scene output at address \<open>a\<close>; likewise for \<open>output_leave\<close>.\<close>

fun is_enter_for :: "addr \<Rightarrow> addr \<Rightarrow> event \<Rightarrow> bool" where
  "is_enter_for n a (Output_enter s a') = (node_addr (buf_node s) = n \<and> a' = a)"
| "is_enter_for n a e = False"

fun is_leave_for :: "addr \<Rightarrow> addr \<Rightarrow> event \<Rightarrow> bool" where
  "is_leave_for n a (Output_leave s a') = (node_addr (buf_node s) = n \<and> a' = a)"
| "is_leave_for n a e = False"

definition output_enter_count :: "event list \<Rightarrow> addr \<Rightarrow> addr \<Rightarrow> nat" where
  "output_enter_count evs n a = length (filter (is_enter_for n a) evs)"

definition output_leave_count :: "event list \<Rightarrow> addr \<Rightarrow> addr \<Rightarrow> nat" where
  "output_leave_count evs n a = length (filter (is_leave_for n a) evs)"

text \<open>Distinct buffer nodes of a scene are distinct objects.\<close>

definition buffer_addrs_distinct :: "(wlr_scene_buffer \<times> int \<times> int) list \<Rightarrow> bool" where
  "buffer_addrs_distinct bs = distinct (map (\<lambda>c. node_addr (buf_node (fst c))) bs)"

section \<open>Specification vocabulary for scan-out\<close>







section \<open>Specification vocabulary for destruction\<close>

text \<open>The addresses of the nodes of a subtree in pre-order, parents before children and
  children in list order.\<close>

fun node_addrs :: "scene_node \<Rightarrow> addr list"
and children_addrs :: "scene_node list \<Rightarrow> addr list" where
  "node_addrs (Tree h children) = node_addr h # children_addrs children"
| "node_addrs (Rect r) = [node_addr (rect_node r)]"
| "node_addrs (Buffer b) = [node_addr (buf_node b)]"
| "children_addrs [] = []"
| "children_addrs (child # rest) = node_addrs child @ children_addrs rest"

text \<open>The order of teardown that the specification asks for: the destroy signal of a node,
  then the teardown of its children one after the other, then the node is freed.\<close>

fun teardown_order :: "scene_node \<Rightarrow> event list"
and teardown_children :: "scene_node list \<Rightarrow> event list" where
  "teardown_order (Tree h children) =
     Signal_destroy (node_addr h) # teardown_children children @ [Free (node_addr h)]"
| "teardown_order (Rect r) =
     [Signal_destroy (node_addr (rect_node r)), Free (node_addr (rect_node r))]"
| "teardown_order (Buffer b) =
     [Signal_destroy (node_addr (buf_node b)), Free (node_addr (buf_node b))]"
| "teardown_children [] = []"
| "teardown_children (child # rest) = teardown_order child @ teardown_children rest"

fun is_destroy_or_free :: "event \<Rightarrow> bool" where
  "is_destroy_or_free (Signal_destroy a) = True"
| "is_destroy_or_free (Free a) = True"
| "is_destroy_or_free e = False"

text \<open>The addresses whose destroy signal a trace emits, in order.\<close>

fun destroy_signals :: "event list \<Rightarrow> addr list" where
  "destroy_signals [] = []"
| "destroy_signals (Signal_destroy a # evs) = a # destroy_signals evs"
| "destroy_signals (e # evs) = destroy_signals evs"

text \<open>The part of a trace that follows the moment the node at address \<open>n\<close> is freed.\<close>

definition after_free :: "addr \<Rightarrow> event list \<Rightarrow> event list" where
  "after_free n evs = dropWhile (\<lambda>e. e \<noteq> Free n) evs"

text \<open>The node at address \<open>a\<close> is freed in the trace, and after it has been freed no
  \<open>output_leave\<close> of that node for the scene output \<open>s\<close> follows.\<close>

definition freed_once :: "addr \<Rightarrow> addr \<Rightarrow> event list \<Rightarrow> bool" where
  "freed_once a s evs =
     (\<exists>pre post. evs = pre @ Free a # post \<and> Free a \<notin> set pre \<and> filter (is_leave_for a s) post = [])"

text \<open>The \<open>active_outputs\<close> of a buffer node (with its absolute position) agree with the
  outputs of the scene: the bit of every output is set exactly when the node intersects
  it, and no bit is set outside the indices of the outputs.\<close>

definition consistent :: "wlr_scene_output list \<Rightarrow> wlr_scene_buffer \<times> int \<times> int \<Rightarrow> bool" where
  "consistent outs c = (bits_ok outs (fst c) (fst (snd c)) (snd (snd c)) \<and> active_within outs (fst c))"

section \<open>Examples\<close>

text \<open>Scenario S3 of the specification: two outputs of 1920x1080 side by side and a
  100x100 buffer node.\<close>

definition s3_output0 :: wlr_scene_output where
  "s3_output0 =
     \<lparr>so_addr = 100,
      so_output = \<lparr>output_addr = 200, effective_width = 1920, effective_height = 1080,
                   output_scale = 1, output_transform = WL_OUTPUT_TRANSFORM_NORMAL\<rparr>,
      so_x = 0, so_y = 0, so_index = 0, so_prev_scanout = False\<rparr>"

definition s3_output1 :: wlr_scene_output where
  "s3_output1 =
     \<lparr>so_addr = 101,
      so_output = \<lparr>output_addr = 201, effective_width = 1920, effective_height = 1080,
                   output_scale = 1, output_transform = WL_OUTPUT_TRANSFORM_NORMAL\<rparr>,
      so_x = 1920, so_y = 0, so_index = 1, so_prev_scanout = False\<rparr>"

definition s3_buffer :: wlr_scene_buffer where
  "s3_buffer =
     \<lparr>buf_node = \<lparr>node_addr = 1, node_x = 1900, node_y = 500, node_enabled = True\<rparr>,
      buffer = Some \<lparr>buffer_addr = 50, buffer_width = 100, buffer_height = 100\<rparr>,
      texture = None,
      src_box = \<lparr>fbox_x = 0, fbox_y = 0, fbox_width = 0, fbox_height = 0\<rparr>,
      dst_width = 0, dst_height = 0, transform = WL_OUTPUT_TRANSFORM_NORMAL,
      active_outputs = 0, primary_output = None\<rparr>"

text \<open>The buffer node of S3 after its membership has been computed at (1900, 500): it is
  on both outputs and its primary output is the second one.\<close>

definition s3_buffer_placed :: wlr_scene_buffer where
  "s3_buffer_placed = s3_buffer\<lparr>active_outputs := 3, primary_output := Some 101\<rparr>"

text \<open>The same node after it has been moved to (500, 500).\<close>

definition s3_buffer_moved :: wlr_scene_buffer where
  "s3_buffer_moved = s3_buffer\<lparr>active_outputs := 1, primary_output := Some 100\<rparr>"

text \<open>A scene whose outputs have the indices 0 and 2, with the buffer node of S3 in its
  tree, and an output that is about to be added to it.\<close>

definition gap_output2 :: wlr_scene_output where
  "gap_output2 =
     \<lparr>so_addr = 102,
      so_output = \<lparr>output_addr = 202, effective_width = 1920, effective_height = 1080,
                   output_scale = 1, output_transform = WL_OUTPUT_TRANSFORM_NORMAL\<rparr>,
      so_x = 3840, so_y = 0, so_index = 2, so_prev_scanout = False\<rparr>"

definition gap_buffer :: wlr_scene_buffer where
  "gap_buffer = s3_buffer\<lparr>active_outputs := 1, primary_output := Some 100\<rparr>"

definition gap_scene :: wlr_scene where
  "gap_scene =
     \<lparr>scene_tree =
        Tree \<lparr>node_addr = 0, node_x = 0, node_y = 0, node_enabled = True\<rparr> [Buffer gap_buffer],
      scene_outputs = [s3_output0, gap_output2],
      scene_debug_damage_option = WLR_SCENE_DEBUG_DAMAGE_NONE\<rparr>"

definition new_output :: wlr_output where
  "new_output =
     \<lparr>output_addr = 203, effective_width = 1920, effective_height = 1080,
      output_scale = 1, output_transform = WL_OUTPUT_TRANSFORM_NORMAL\<rparr>"

text \<open>The same scene after \<open>wlr_scene_output_create\<close> has added the output.\<close>

definition gap_new_scene_output :: wlr_scene_output where
  "gap_new_scene_output =
     \<lparr>so_addr = 103, so_output = new_output, so_x = 0, so_y = 0, so_index = 1,
      so_prev_scanout = False\<rparr>"

definition gap_buffer_after :: wlr_scene_buffer where
  "gap_buffer_after = s3_buffer\<lparr>active_outputs := 3, primary_output := Some 100\<rparr>"

definition gap_scene_after :: wlr_scene where
  "gap_scene_after =
     \<lparr>scene_tree =
        Tree \<lparr>node_addr = 0, node_x = 0, node_y = 0, node_enabled = True\<rparr>
          [Buffer gap_buffer_after],
      scene_outputs = [s3_output0, gap_new_scene_output, gap_output2],
      scene_debug_damage_option = WLR_SCENE_DEBUG_DAMAGE_NONE\<rparr>"



text \<open>A rect node of colour (1.0, 0.0, 0.0, 1.0), and the chain of ancestors of a child of
  the root.\<close>

definition example_rect :: wlr_scene_rect where
  "example_rect =
     \<lparr>rect_node = \<lparr>node_addr = 2, node_x = 5, node_y = 5, node_enabled = True\<rparr>,
      rect_width = 10, rect_height = 10,
      rect_color = [0x3F800000, 0, 0, 0x3F800000]\<rparr>"

definition example_up :: "crumb list" where
  "example_up = [Crumb \<lparr>node_addr = 0, node_x = 0, node_y = 0, node_enabled = True\<rparr> [] []]"

text \<open>A scene with the two outputs of S3 whose root has one child tree, which holds the
  buffer node of S3 and a rect; the child tree is about to be destroyed.\<close>

definition destroy_node :: scene_node where
  "destroy_node =
     Tree \<lparr>node_addr = 3, node_x = 0, node_y = 0, node_enabled = True\<rparr>
       [Buffer s3_buffer_placed, Rect example_rect]"

definition destroy_scene :: wlr_scene where
  "destroy_scene =
     \<lparr>scene_tree =
        Tree \<lparr>node_addr = 0, node_x = 0, node_y = 0, node_enabled = True\<rparr> [destroy_node],
      scene_outputs = [s3_output0, s3_output1],
      scene_debug_damage_option = WLR_SCENE_DEBUG_DAMAGE_NONE\<rparr>"

text \<open>A scene with the two outputs of S3 whose root has two child trees; the first holds
  the buffer node of S3, the second is empty and sits at (100, 0).\<close>

definition reparent_target :: scene_node where
  "reparent_target = Tree \<lparr>node_addr = 4, node_x = 100, node_y = 0, node_enabled = True\<rparr> []"

definition reparent_up :: "crumb list" where
  "reparent_up =
     [Crumb \<lparr>node_addr = 3, node_x = 0, node_y = 0, node_enabled = True\<rparr> [] [],
      Crumb \<lparr>node_addr = 0, node_x = 0, node_y = 0, node_enabled = True\<rparr> [] [reparent_target]]"

text \<open>An output whose effective resolution is 50000x50000 (a mode of 6250x6250 at scale
  0.125) and a buffer node of 100x100 at its origin, which is on that output and has it as
  its primary output.\<close>

definition big_output :: wlr_scene_output where
  "big_output =
     \<lparr>so_addr = 100,
      so_output = \<lparr>output_addr = 200, effective_width = 50000, effective_height = 50000,
                   output_scale = 1 / 8, output_transform = WL_OUTPUT_TRANSFORM_NORMAL\<rparr>,
      so_x = 0, so_y = 0, so_index = 0, so_prev_scanout = False\<rparr>"

definition big_buffer :: wlr_scene_buffer where
  "big_buffer =
     \<lparr>buf_node = \<lparr>node_addr = 1, node_x = 0, node_y = 0, node_enabled = True\<rparr>,
      buffer = Some \<lparr>buffer_addr = 50, buffer_width = 100, buffer_height = 100\<rparr>,
      texture = None,
      src_box = \<lparr>fbox_x = 0, fbox_y = 0, fbox_width = 0, fbox_height = 0\<rparr>,
      dst_width = 0, dst_height = 0, transform = WL_OUTPUT_TRANSFORM_NORMAL,
      active_outputs = 1, primary_output = Some 100\<rparr>"

text \<open>The same node after its destination size has been set to 50000x50000: it covers
  the output, its bit is set and it has no primary output.\<close>

definition big_buffer_resized :: wlr_scene_buffer where
  "big_buffer_resized =
     big_buffer\<lparr>dst_width := 50000, dst_height := 50000, primary_output := None\<rparr>"

text \<open>The buffer node of S3 with the source box (0.0, 0.0, 10.0, 10.0), and the box
  (-0.0, 0.0, 10.0, 10.0), which is equal to it as four numbers and differs from it in the
  sign bit of \<open>x\<close>; the colour (-0.0, 0.0, 0.0, 1.0) differs in the same way from
  (0.0, 0.0, 0.0, 1.0).\<close>

definition cropped_buffer :: wlr_scene_buffer where
  "cropped_buffer =
     s3_buffer_placed\<lparr>src_box :=
       \<lparr>fbox_x = 0, fbox_y = 0,
        fbox_width = 0x4024000000000000, fbox_height = 0x4024000000000000\<rparr>\<rparr>"

definition negative_zero_box :: wlr_fbox where
  "negative_zero_box =
     \<lparr>fbox_x = 0x8000000000000000, fbox_y = 0,
      fbox_width = 0x4024000000000000, fbox_height = 0x4024000000000000\<rparr>"

definition black_rect :: wlr_scene_rect where
  "black_rect = example_rect\<lparr>rect_color := [0, 0, 0, 0x3F800000]\<rparr>"

definition negative_zero_black :: "c_float list" where
  "negative_zero_black = [0x80000000, 0, 0, 0x3F800000]"
section \<open>The two loops of the membership recomputation\<close>

lemma overlap_area_pos: "intersects bb so \<Longrightarrow> 0 < overlap_area bb so"
  by (auto simp: intersects_def overlap_area_def wlr_box_intersection_def wlr_box_empty_def Let_def
      zero_less_mult_iff not_le split: if_splits)

lemma overlap_area_zero: "\<not> intersects bb so \<Longrightarrow> overlap_area bb so = 0"
  by (auto simp: intersects_def overlap_area_def split: prod.splits)

lemma computed_overlap_zero: "\<not> intersects bb so \<Longrightarrow> computed_overlap bb so = 0"
  by (auto simp: intersects_def computed_overlap_def split: prod.splits)

lemma c_int_mul_exact: "0 \<le> a * b \<Longrightarrow> a * b \<le> 2147483647 \<Longrightarrow> c_int_mul a b = a * b"
  by (simp add: c_int_mul_def)

lemma computed_overlap_exact:
  "overlap_area bb so \<le> 2147483647 \<Longrightarrow> computed_overlap bb so = overlap_area bb so"
proof (cases "intersects bb so")
  case True
  assume le: "overlap_area bb so \<le> 2147483647"
  from True have "0 < overlap_area bb so" by (rule overlap_area_pos)
  with le True show ?thesis
    by (cases "wlr_box_intersection bb (output_box so)")
      (simp add: computed_overlap_def overlap_area_def intersects_def c_int_mul_exact)
next
  case False
  then show ?thesis by (simp add: computed_overlap_zero overlap_area_zero)
qed

lemma overlap_area_le_output:
  "overlap_area bb so \<le> max 0 (box_width (output_box so) * box_height (output_box so))"
proof (cases "intersects bb so")
  case False
  then show ?thesis by (simp add: overlap_area_zero)
next
  case True
  let ?ob = "output_box so"
  let ?w = "min (box_x bb + box_width bb) (box_x ?ob + box_width ?ob) - max (box_x bb) (box_x ?ob)"
  let ?h = "min (box_y bb + box_height bb) (box_y ?ob + box_height ?ob) - max (box_y bb) (box_y ?ob)"
  from True have a: "overlap_area bb so = ?w * ?h" and w: "0 < ?w" and h: "0 < ?h"
    by (auto simp: intersects_def overlap_area_def wlr_box_intersection_def wlr_box_empty_def
        Let_def not_le split: if_splits)
  have "?w \<le> box_width ?ob" "?h \<le> box_height ?ob" by auto
  with w h have "?w * ?h \<le> box_width ?ob * box_height ?ob"
    by (intro mult_mono) auto
  then have "?w * ?h \<le> max 0 (box_width ?ob * box_height ?ob)"
    by (rule max.coboundedI2)
  with a show ?thesis by (simp only:)
qed

lemma outputs_fit_overlap: "outputs_fit outs \<Longrightarrow> overlap_fits bb outs"
  unfolding outputs_fit_def overlap_fits_def list_all_iff
proof
  fix so assume "\<forall>so\<in>set outs. box_width (output_box so) * box_height (output_box so) \<le> 2147483647"
    and "so \<in> set outs"
  then have "box_width (output_box so) * box_height (output_box so) \<le> 2147483647" by blast
  with overlap_area_le_output[of bb so] show "overlap_area bb so \<le> 2147483647" by simp
qed

lemma overlap_fits_filter: "overlap_fits bb outs \<Longrightarrow> overlap_fits bb (filter P outs)"
  by (simp add: overlap_fits_def list_all_iff)

lemma outputs_fit_filter: "outputs_fit outs \<Longrightarrow> outputs_fit (filter P outs)"
  by (simp add: outputs_fit_def list_all_iff)

lemma mask_test: "(w AND output_mask so \<noteq> 0) = bit (w::64 word) (nat (so_index so))"
  by (simp add: output_mask_def push_bit_of_1 and_exp_eq_0_iff_not_bit)

lemma mask_test0: "(w AND output_mask so = 0) = (\<not> bit (w::64 word) (nat (so_index so)))"
  by (simp add: output_mask_def push_bit_of_1 and_exp_eq_0_iff_not_bit)

lemma bit_output_mask: "bit (output_mask so) n \<longleftrightarrow> n = nat (so_index so) \<and> n < 64"
  by (auto simp: output_mask_def bit_exp_iff)

lemma primary_step_skip:
  "ign = Some (so_addr so) \<Longrightarrow>
   update_outputs_primary bb ign (so # outs) (l, sb, a) = update_outputs_primary bb ign outs (l, sb, a)"
  by simp

lemma primary_step_miss:
  "ign \<noteq> Some (so_addr so) \<Longrightarrow> \<not> intersects bb so \<Longrightarrow>
   update_outputs_primary bb ign (so # outs) (l, sb, a) = update_outputs_primary bb ign outs (l, sb, a)"
  by (cases "wlr_box_intersection bb (output_box so)") (simp add: intersects_def)

lemma primary_step_larger:
  "ign \<noteq> Some (so_addr so) \<Longrightarrow> intersects bb so \<Longrightarrow> l < computed_overlap bb so \<Longrightarrow>
   update_outputs_primary bb ign (so # outs) (l, sb, a) =
   update_outputs_primary bb ign outs
     (computed_overlap bb so, sb\<lparr>primary_output := Some (so_addr so)\<rparr>, a OR output_mask so)"
  by (cases "wlr_box_intersection bb (output_box so)") (simp add: intersects_def computed_overlap_def)

lemma primary_step_smaller:
  "ign \<noteq> Some (so_addr so) \<Longrightarrow> intersects bb so \<Longrightarrow> \<not> l < computed_overlap bb so \<Longrightarrow>
   update_outputs_primary bb ign (so # outs) (l, sb, a) =
   update_outputs_primary bb ign outs (l, sb, a OR output_mask so)"
  by (cases "wlr_box_intersection bb (output_box so)") (simp add: intersects_def computed_overlap_def)

declare update_outputs_primary.simps(2) [simp del]

lemma primary_ignore_filter:
  "update_outputs_primary bb ign outs st =
   update_outputs_primary bb None (filter (\<lambda>so. ign \<noteq> Some (so_addr so)) outs) st"
proof (induction outs arbitrary: st)
  case Nil
  then show ?case by simp
next
  case (Cons x outs)
  obtain l sb a where st: "st = (l, sb, a)" by (cases st)
  show ?case
  proof (cases "ign = Some (so_addr x)")
    case True
    then show ?thesis using Cons.IH[of st] by (simp add: st primary_step_skip)
  next
    case False
    then show ?thesis
      using Cons.IH by (cases "wlr_box_intersection bb (output_box x)")
        (simp add: st update_outputs_primary.simps(2) Let_def split: prod.splits)
  qed
qed

lemma primary_active:
  "update_outputs_primary bb None outs (l, sb, a) = (l', sb', a') \<Longrightarrow>
   bit a' n \<longleftrightarrow> bit a n \<or> (\<exists>so\<in>set outs. intersects bb so \<and> n = nat (so_index so) \<and> n < 64)"
proof (induction outs arbitrary: l sb a)
  case Nil
  then show ?case by simp
next
  case (Cons x outs)
  consider (miss) "\<not> intersects bb x"
    | (larger) "intersects bb x" "l < computed_overlap bb x"
    | (smaller) "intersects bb x" "\<not> l < computed_overlap bb x"
    by blast
  then show ?case
  proof cases
    case miss
    with Cons.prems have "update_outputs_primary bb None outs (l, sb, a) = (l', sb', a')"
      by (simp add: primary_step_miss)
    from Cons.IH[OF this] miss show ?thesis by auto
  next
    case larger
    with Cons.prems have "update_outputs_primary bb None outs
       (computed_overlap bb x, sb\<lparr>primary_output := Some (so_addr x)\<rparr>, a OR output_mask x) = (l', sb', a')"
      by (simp add: primary_step_larger)
    from Cons.IH[OF this] larger show ?thesis
      by (auto simp: bit_or_iff bit_output_mask)
  next
    case smaller
    with Cons.prems have "update_outputs_primary bb None outs (l, sb, a OR output_mask x) = (l', sb', a')"
      by (simp add: primary_step_smaller)
    from Cons.IH[OF this] smaller show ?thesis
      by (auto simp: bit_or_iff bit_output_mask)
  qed
qed

lemma primary_largest:
  "update_outputs_primary bb None outs (l, sb, a) = (l', sb', a') \<Longrightarrow> 0 \<le> l \<Longrightarrow>
   (l' = l \<and> sb' = sb \<and> list_all (\<lambda>so. computed_overlap bb so \<le> l) outs)
   \<or> (\<exists>pre so post. outs = pre @ so # post \<and> intersects bb so \<and>
        sb' = sb\<lparr>primary_output := Some (so_addr so)\<rparr> \<and> l' = computed_overlap bb so \<and> l < l' \<and>
        list_all (\<lambda>p. computed_overlap bb p < l') pre \<and>
        list_all (\<lambda>q. computed_overlap bb q \<le> l') post)"
proof (induction outs arbitrary: l sb a)
  case Nil
  then show ?case by simp
next
  case (Cons x outs)
  let ?A = "\<lambda>l sb outs. l' = l \<and> sb' = sb \<and> list_all (\<lambda>so. computed_overlap bb so \<le> l) outs"
  let ?B = "\<lambda>l sb outs. \<exists>pre so post. outs = pre @ so # post \<and> intersects bb so \<and>
        sb' = sb\<lparr>primary_output := Some (so_addr so)\<rparr> \<and> l' = computed_overlap bb so \<and> l < l' \<and>
        list_all (\<lambda>p. computed_overlap bb p < l') pre \<and>
        list_all (\<lambda>q. computed_overlap bb q \<le> l') post"
  have lift: "?B l sb (x # outs)"
    if B: "?B k sk outs" and x: "computed_overlap bb x < l'"
      and l: "l \<le> k" and sb: "sk\<lparr>primary_output := primary_output sb'\<rparr> = sb\<lparr>primary_output := primary_output sb'\<rparr>"
    for k sk
  proof -
    from B obtain pre so post where *: "outs = pre @ so # post" "intersects bb so"
        "sb' = sk\<lparr>primary_output := Some (so_addr so)\<rparr>" "l' = computed_overlap bb so" "k < l'"
        "list_all (\<lambda>p. computed_overlap bb p < l') pre"
        "list_all (\<lambda>q. computed_overlap bb q \<le> l') post"
      by blast
    from *(3) sb have "sb' = sb\<lparr>primary_output := Some (so_addr so)\<rparr>" by simp
    moreover have "x # outs = (x # pre) @ so # post" using *(1) by simp
    moreover have "list_all (\<lambda>p. computed_overlap bb p < l') (x # pre)"
      using x *(6) by simp
    ultimately show ?thesis using * l by (intro exI conjI) (assumption | simp)+
  qed
  consider (miss) "\<not> intersects bb x"
    | (larger) "intersects bb x" "l < computed_overlap bb x"
    | (smaller) "intersects bb x" "\<not> l < computed_overlap bb x"
    by blast
  then show ?case
  proof cases
    case miss
    with Cons.prems have "update_outputs_primary bb None outs (l, sb, a) = (l', sb', a')"
      by (simp add: primary_step_miss)
    from Cons.IH[OF this \<open>0 \<le> l\<close>] show ?thesis
    proof
      assume "?A l sb outs" then show ?thesis using miss \<open>0 \<le> l\<close> by (simp add: computed_overlap_zero)
    next
      assume B: "?B l sb outs"
      then have "l < l'" by blast
      with B have "?B l sb (x # outs)" using miss \<open>0 \<le> l\<close>
        by (intro lift[where k=l and sk=sb]) (simp_all add: computed_overlap_zero)
      then show ?thesis ..
    qed
  next
    case larger
    let ?l1 = "computed_overlap bb x" and ?sb1 = "sb\<lparr>primary_output := Some (so_addr x)\<rparr>"
    from larger Cons.prems have
      run: "update_outputs_primary bb None outs (?l1, ?sb1, a OR output_mask x) = (l', sb', a')"
      by (simp add: primary_step_larger)
    have "0 \<le> ?l1" using larger \<open>0 \<le> l\<close> by simp
    from Cons.IH[OF run this] show ?thesis
    proof
      assume A: "?A ?l1 ?sb1 outs"
      have "x # outs = [] @ x # outs" by simp
      with A larger have "?B l sb (x # outs)"
        by (intro exI[of _ "[]"] exI[of _ x] exI[of _ outs]) simp
      then show ?thesis ..
    next
      assume B: "?B ?l1 ?sb1 outs"
      then have "?l1 < l'" by blast
      with B have "?B l sb (x # outs)" using larger
        by (intro lift[where k="?l1" and sk="?sb1"]) simp_all
      then show ?thesis ..
    qed
  next
    case smaller
    with Cons.prems have
      run: "update_outputs_primary bb None outs (l, sb, a OR output_mask x) = (l', sb', a')"
      by (simp add: primary_step_smaller)
    from Cons.IH[OF run \<open>0 \<le> l\<close>] show ?thesis
    proof
      assume "?A l sb outs" then show ?thesis using smaller by simp
    next
      assume B: "?B l sb outs"
      then have "l < l'" by blast
      with B have "?B l sb (x # outs)" using smaller
        by (intro lift[where k=l and sk=sb]) simp_all
      then show ?thesis ..
    qed
  qed
qed

text \<open>The result of \<open>scene_buffer_update_outputs\<close>, in terms of its first loop.\<close>

lemma scene_buffer_update_outputs_unfold:
  assumes "scene_buffer_update_outputs b lx ly outs ign = (b', evs)"
  obtains l sb1 active where
    "update_outputs_primary (buffer_box b lx ly) None (filter (\<lambda>so. ign \<noteq> Some (so_addr so)) outs)
       (0, b\<lparr>primary_output := None\<rparr>, 0) = (l, sb1, active)"
    "b' = sb1\<lparr>active_outputs := active\<rparr>"
    "evs = update_outputs_signals b' active (active_outputs sb1) outs"
proof -
  obtain l sb1 active where run:
    "update_outputs_primary (buffer_box b lx ly) ign outs (0, b\<lparr>primary_output := None\<rparr>, 0) = (l, sb1, active)"
    using prod_cases3 by blast
  have bb: "buffer_box b lx ly = \<lparr>box_x = lx, box_y = ly, box_width = fst (scene_node_get_size (Buffer b)),
      box_height = snd (scene_node_get_size (Buffer b))\<rparr>"
    by (simp add: buffer_box_def)
  from assms run have "b' = sb1\<lparr>active_outputs := active\<rparr>"
    "evs = update_outputs_signals b' active (active_outputs sb1) outs"
    unfolding scene_buffer_update_outputs_def bb
    by (auto simp: Let_def split: prod.splits)
  with run that show thesis by (simp add: primary_ignore_filter[of _ ign])
qed

lemma outputs_wf_index_inj:
  "outputs_wf outs \<Longrightarrow> o1 \<in> set outs \<Longrightarrow> o2 \<in> set outs \<Longrightarrow>
   nat (so_index o1) = nat (so_index o2) \<Longrightarrow> o1 = o2"
proof -
  assume wf: "outputs_wf outs" and m: "o1 \<in> set outs" "o2 \<in> set outs"
    and eq: "nat (so_index o1) = nat (so_index o2)"
  from wf m have "0 \<le> so_index o1" "0 \<le> so_index o2"
    by (auto simp: outputs_wf_def list_all_iff)
  with eq have "so_index o1 = so_index o2" by simp
  moreover from wf have "distinct (map so_index outs)"
    by (simp add: outputs_wf_def strict_sorted_iff)
  ultimately show ?thesis using m by (meson distinct_map inj_onD)
qed

lemma outputs_wf_filter: "outputs_wf outs \<Longrightarrow> outputs_wf (filter P outs)"
  by (auto simp: outputs_wf_def distinct_map_filter sorted_wrt_map sorted_wrt_filter list_all_iff)

lemma buffer_box_update [simp]:
  "buffer_box (b\<lparr>primary_output := p\<rparr>) x y = buffer_box b x y"
  "buffer_box (b\<lparr>active_outputs := a\<rparr>) x y = buffer_box b x y"
  by (simp_all add: buffer_box_def cong: option.case_cong)

lemma scene_buffer_update_outputs_fields:
  assumes "scene_buffer_update_outputs b lx ly outs ign = (b', evs)"
  obtains p a where "b' = b\<lparr>primary_output := p, active_outputs := a\<rparr>"
proof -
  from assms obtain l sb1 active where
    p: "update_outputs_primary (buffer_box b lx ly) None (filter (\<lambda>so. ign \<noteq> Some (so_addr so)) outs)
         (0, b\<lparr>primary_output := None\<rparr>, 0) = (l, sb1, active)"
    and b': "b' = sb1\<lparr>active_outputs := active\<rparr>"
    by (rule scene_buffer_update_outputs_unfold)
  from primary_largest[OF p] obtain q where "sb1 = b\<lparr>primary_output := q\<rparr>" by auto
  with b' that show thesis by simp
qed

lemma update_outputs_bits_general:
  assumes wf: "outputs_wf outs"
    and run: "scene_buffer_update_outputs b lx ly outs ign = (b', evs)"
  shows "bits_ok (filter (\<lambda>so. ign \<noteq> Some (so_addr so)) outs) b' lx ly \<and>
         active_within (filter (\<lambda>so. ign \<noteq> Some (so_addr so)) outs) b'"
proof -
  let ?outs = "filter (\<lambda>so. ign \<noteq> Some (so_addr so)) outs"
  let ?bb = "buffer_box b lx ly"
  from run obtain l sb1 active where
    p: "update_outputs_primary ?bb None ?outs (0, b\<lparr>primary_output := None\<rparr>, 0) = (l, sb1, active)"
    and b': "b' = sb1\<lparr>active_outputs := active\<rparr>"
    by (rule scene_buffer_update_outputs_unfold)
  have wf': "outputs_wf ?outs" using wf by (rule outputs_wf_filter)
  have bits: "bit active n \<longleftrightarrow> (\<exists>so\<in>set ?outs. intersects ?bb so \<and> n = nat (so_index so) \<and> n < 64)" for n
    using primary_active[OF p, of n] by simp
  from primary_largest[OF p] obtain q where same: "sb1 = b\<lparr>primary_output := q\<rparr>" by auto
  have box: "buffer_box b' lx ly = ?bb"
    by (subst b', subst same) (simp add: buffer_box_def split: option.splits)
  have act: "active_outputs b' = active" by (simp add: b')
  have 1: "list_all (\<lambda>so. bit (active_outputs b') (nat (so_index so)) = intersects (buffer_box b' lx ly) so) ?outs"
    unfolding list_all_iff box act
  proof
    fix x assume o: "x \<in> set ?outs"
    then have lt: "nat (so_index x) < 64" using wf' by (auto simp: outputs_wf_def list_all_iff)
    show "bit active (nat (so_index x)) = intersects ?bb x"
    proof
      assume "bit active (nat (so_index x))"
      then obtain so where so: "so \<in> set ?outs" "intersects ?bb so" "nat (so_index x) = nat (so_index so)"
        unfolding bits by blast
      from outputs_wf_index_inj[OF wf' o so(1) so(3)] so(2) show "intersects ?bb x" by simp
    next
      assume "intersects ?bb x"
      with o lt show "bit active (nat (so_index x))" unfolding bits by blast
    qed
  qed
  have 3: "active_within ?outs b'"
    unfolding active_within_def act bits by blast
  from 1 3 show ?thesis by (simp add: bits_ok_def)
qed

text \<open>What the first loop leaves in \<open>primary_output\<close>, in terms of the overlaps it computes:
  null when no computed overlap is positive, otherwise the first output of the largest
  computed overlap.\<close>

lemma update_outputs_primary_computed:
  assumes run: "scene_buffer_update_outputs b lx ly outs ign = (b', evs)"
  shows "(primary_output b' = None \<and>
          list_all (\<lambda>so. computed_overlap (buffer_box b lx ly) so \<le> 0)
            (filter (\<lambda>so. ign \<noteq> Some (so_addr so)) outs))
     \<or> (\<exists>pre so post. filter (\<lambda>so. ign \<noteq> Some (so_addr so)) outs = pre @ so # post \<and>
          intersects (buffer_box b lx ly) so \<and> primary_output b' = Some (so_addr so) \<and>
          0 < computed_overlap (buffer_box b lx ly) so \<and>
          list_all (\<lambda>p. computed_overlap (buffer_box b lx ly) p < computed_overlap (buffer_box b lx ly) so) pre \<and>
          list_all (\<lambda>q. computed_overlap (buffer_box b lx ly) q \<le> computed_overlap (buffer_box b lx ly) so) post)"
proof -
  let ?outs = "filter (\<lambda>so. ign \<noteq> Some (so_addr so)) outs"
  let ?bb = "buffer_box b lx ly"
  from run obtain l sb1 active where
    p: "update_outputs_primary ?bb None ?outs (0, b\<lparr>primary_output := None\<rparr>, 0) = (l, sb1, active)"
    and b': "b' = sb1\<lparr>active_outputs := active\<rparr>"
    by (rule scene_buffer_update_outputs_unfold)
  from primary_largest[OF p] have
    "(sb1 = b\<lparr>primary_output := None\<rparr> \<and> list_all (\<lambda>so. computed_overlap ?bb so \<le> 0) ?outs)
     \<or> (\<exists>pre so post. ?outs = pre @ so # post \<and> intersects ?bb so \<and>
          sb1 = b\<lparr>primary_output := Some (so_addr so)\<rparr> \<and> 0 < computed_overlap ?bb so \<and>
          list_all (\<lambda>p. computed_overlap ?bb p < computed_overlap ?bb so) pre \<and>
          list_all (\<lambda>q. computed_overlap ?bb q \<le> computed_overlap ?bb so) post)"
    by auto
  then show ?thesis
  proof
    assume "sb1 = b\<lparr>primary_output := None\<rparr> \<and> list_all (\<lambda>so. computed_overlap ?bb so \<le> 0) ?outs"
    then show ?thesis by (simp add: b')
  next
    assume "\<exists>pre so post. ?outs = pre @ so # post \<and> intersects ?bb so \<and>
          sb1 = b\<lparr>primary_output := Some (so_addr so)\<rparr> \<and> 0 < computed_overlap ?bb so \<and>
          list_all (\<lambda>p. computed_overlap ?bb p < computed_overlap ?bb so) pre \<and>
          list_all (\<lambda>q. computed_overlap ?bb q \<le> computed_overlap ?bb so) post"
    then obtain pre so post where *: "?outs = pre @ so # post" "intersects ?bb so"
          "sb1 = b\<lparr>primary_output := Some (so_addr so)\<rparr>" "0 < computed_overlap ?bb so"
          "list_all (\<lambda>p. computed_overlap ?bb p < computed_overlap ?bb so) pre"
          "list_all (\<lambda>q. computed_overlap ?bb q \<le> computed_overlap ?bb so) post" by blast
    from *(3) have "primary_output b' = Some (so_addr so)" by (simp add: b')
    with * show ?thesis by blast
  qed
qed

lemma update_outputs_primary_general:
  assumes run: "scene_buffer_update_outputs b lx ly outs ign = (b', evs)"
    and fits: "overlap_fits (buffer_box b lx ly) (filter (\<lambda>so. ign \<noteq> Some (so_addr so)) outs)"
  shows "primary_is (buffer_box b' lx ly) (filter (\<lambda>so. ign \<noteq> Some (so_addr so)) outs)
           (primary_output b')"
proof -
  let ?outs = "filter (\<lambda>so. ign \<noteq> Some (so_addr so)) outs"
  let ?bb = "buffer_box b lx ly"
  have box: "buffer_box b' lx ly = ?bb"
  proof -
    from run obtain p a where "b' = b\<lparr>primary_output := p, active_outputs := a\<rparr>"
      by (rule scene_buffer_update_outputs_fields)
    then show ?thesis by (simp add: buffer_box_def cong: option.case_cong)
  qed
  have eq: "computed_overlap ?bb so = overlap_area ?bb so" if "so \<in> set ?outs" for so
    using fits that by (intro computed_overlap_exact) (simp add: overlap_fits_def list_all_iff)
  from update_outputs_primary_computed[OF run] show ?thesis
    unfolding box
  proof
    assume A: "primary_output b' = None \<and> list_all (\<lambda>so. computed_overlap ?bb so \<le> 0) ?outs"
    have "list_all (\<lambda>so. \<not> intersects ?bb so) ?outs"
      unfolding list_all_iff
    proof
      fix so assume so: "so \<in> set ?outs"
      with A have "computed_overlap ?bb so \<le> 0" by (simp add: list_all_iff)
      with eq[OF so] have "overlap_area ?bb so \<le> 0" by simp
      with overlap_area_pos[of ?bb so] show "\<not> intersects ?bb so" by auto
    qed
    with A show "primary_is ?bb ?outs (primary_output b')" by (simp add: primary_is_def)
  next
    assume "\<exists>pre so post. ?outs = pre @ so # post \<and>
          intersects ?bb so \<and> primary_output b' = Some (so_addr so) \<and>
          0 < computed_overlap ?bb so \<and>
          list_all (\<lambda>p. computed_overlap ?bb p < computed_overlap ?bb so) pre \<and>
          list_all (\<lambda>q. computed_overlap ?bb q \<le> computed_overlap ?bb so) post"
    then obtain pre so post where *: "?outs = pre @ so # post" "intersects ?bb so"
          "primary_output b' = Some (so_addr so)"
          "list_all (\<lambda>p. computed_overlap ?bb p < computed_overlap ?bb so) pre"
          "list_all (\<lambda>q. computed_overlap ?bb q \<le> computed_overlap ?bb so) post" by blast
    have mem: "so \<in> set ?outs" "set pre \<subseteq> set ?outs" "set post \<subseteq> set ?outs"
      unfolding *(1) by auto
    have 1: "list_all (\<lambda>p. overlap_area ?bb p < overlap_area ?bb so) pre"
      unfolding list_all_iff
    proof
      fix p assume p: "p \<in> set pre"
      with *(4) have "computed_overlap ?bb p < computed_overlap ?bb so" by (simp add: list_all_iff)
      moreover from p mem(2) have "p \<in> set ?outs" by (rule subsetD[rotated])
      ultimately show "overlap_area ?bb p < overlap_area ?bb so"
        using eq[of p] eq[OF mem(1)] by simp
    qed
    have 2: "list_all (\<lambda>q. overlap_area ?bb q \<le> overlap_area ?bb so) post"
      unfolding list_all_iff
    proof
      fix q assume q: "q \<in> set post"
      with *(5) have "computed_overlap ?bb q \<le> computed_overlap ?bb so" by (simp add: list_all_iff)
      moreover from q mem(3) have "q \<in> set ?outs" by (rule subsetD[rotated])
      ultimately show "overlap_area ?bb q \<le> overlap_area ?bb so"
        using eq[of q] eq[OF mem(1)] by simp
    qed
    from *(1,2,3) 1 2 show "primary_is ?bb ?outs (primary_output b')"
      unfolding primary_is_def by auto
  qed
qed

lemma update_outputs_membership_general:
  assumes wf: "outputs_wf outs"
    and fits: "overlap_fits (buffer_box b lx ly) (filter (\<lambda>so. ign \<noteq> Some (so_addr so)) outs)"
    and run: "scene_buffer_update_outputs b lx ly outs ign = (b', evs)"
  shows "membership_ok (filter (\<lambda>so. ign \<noteq> Some (so_addr so)) outs) b' lx ly \<and>
         active_within (filter (\<lambda>so. ign \<noteq> Some (so_addr so)) outs) b'"
  using update_outputs_bits_general[OF wf run] update_outputs_primary_general[OF run fits]
  by (simp add: membership_ok_def)


section \<open>Membership over a subtree and over the scene\<close>

lemma scene_buffer_update_outputs_node [simp]:
  "buf_node (fst (scene_buffer_update_outputs b lx ly outs ign)) = buf_node b"
proof -
  obtain b' evs where r: "scene_buffer_update_outputs b lx ly outs ign = (b', evs)" by force
  from r obtain p a where "b' = b\<lparr>primary_output := p, active_outputs := a\<rparr>"
    by (rule scene_buffer_update_outputs_fields)
  then show ?thesis by (simp add: r)
qed


lemma update_rec_header [simp]:
  "node_header (fst (scene_node_update_outputs_rec n lx ly outs ign)) = node_header n"
  by (cases n) (simp_all add: split_beta)

lemma update_rec_buffers:
  "buffers_at (fst (scene_node_update_outputs_rec n lx ly outs ign)) lx ly =
     map (\<lambda>(b, x, y). (fst (scene_buffer_update_outputs b x y outs ign), x, y)) (buffers_at n lx ly)"
  "buffers_at_children (fst (update_outputs_children cs lx ly outs ign)) lx ly =
     map (\<lambda>(b, x, y). (fst (scene_buffer_update_outputs b x y outs ign), x, y)) (buffers_at_children cs lx ly)"
  by (induction n lx ly outs ign and cs lx ly outs ign
      rule: scene_node_update_outputs_rec_update_outputs_children.induct)
    (simp_all add: split_beta, (metis prod.collapse)+)

lemma update_rec_events:
  "snd (scene_node_update_outputs_rec n lx ly outs ign) =
     concat (map (\<lambda>(b, x, y). snd (scene_buffer_update_outputs b x y outs ign)) (buffers_at n lx ly))"
  "snd (update_outputs_children cs lx ly outs ign) =
     concat (map (\<lambda>(b, x, y). snd (scene_buffer_update_outputs b x y outs ign)) (buffers_at_children cs lx ly))"
  by (induction n lx ly outs ign and cs lx ly outs ign
      rule: scene_node_update_outputs_rec_update_outputs_children.induct)
    (simp_all add: split_beta, (metis prod.collapse)+)

lemma coords_loop_origin:
  "coords_loop h up lx ly en =
     (lx + node_x h + fst (crumbs_origin up), ly + node_y h + snd (crumbs_origin up),
      en \<and> node_enabled h \<and> list_all (\<lambda>c. node_enabled (crumb_header c)) up)"
  by (induction h up lx ly en rule: coords_loop.induct) auto

lemma buffers_at_children_append:
  "buffers_at_children (xs @ ys) lx ly = buffers_at_children xs lx ly @ buffers_at_children ys lx ly"
  by (induction xs) simp_all

lemma scene_buffers_scene_of:
  "set (scene_buffers (scene_of n up)) =
     set (buffers_at n (fst (wlr_scene_node_coords (n, up))) (fst (snd (wlr_scene_node_coords (n, up)))))
     \<union> set (context_buffers up)"
proof (induction up arbitrary: n)
  case Nil
  then show ?case by (simp add: scene_buffers_def wlr_scene_node_coords_def)
next
  case (Cons c up)
  obtain h prevs nexts where c: "c = Crumb h prevs nexts" by (cases c)
  show ?case
    unfolding c scene_of.simps Cons.IH
    by (auto simp: wlr_scene_node_coords_def coords_loop_origin buffers_at_children_append
        add.commute add.left_commute)
qed


text \<open>A property of buffer nodes that every recomputation establishes holds, after the
  recomputation of a subtree, for every buffer node of the subtree; the two halves of the
  membership invariant are such properties.\<close>

lemma update_rec_all:
  assumes "\<And>b x y. P (fst (scene_buffer_update_outputs b x y outs None)) x y"
  shows "list_all (\<lambda>(b, x, y). P b x y)
           (buffers_at (fst (scene_node_update_outputs_rec n lx ly outs None)) lx ly)"
  using assms by (simp add: update_rec_buffers list_all_iff split_beta)

lemma recomputed_bits:
  assumes "outputs_wf outs"
  shows "bits_ok outs (fst (scene_buffer_update_outputs b x y outs None)) x y"
  using update_outputs_bits_general[OF assms, of b x y None]
  by (cases "scene_buffer_update_outputs b x y outs None") simp

lemma recomputed_membership:
  assumes "outputs_wf outs" and "outputs_fit outs"
  shows "membership_ok outs (fst (scene_buffer_update_outputs b x y outs None)) x y"
  using update_outputs_membership_general[OF assms(1), of b x y None]
    outputs_fit_overlap[OF assms(2), of "buffer_box b x y"]
  by (cases "scene_buffer_update_outputs b x y outs None") simp

lemma scene_membership_all: "scene_membership outs t = scene_all (membership_ok outs) t"
  by (simp add: scene_membership_def scene_all_def)

lemma scene_bits_all: "scene_bits outs t = scene_all (bits_ok outs) t"
  by (simp add: scene_bits_def scene_all_def)

lemma coords_map_header_same:
  "node_header n' = node_header n \<Longrightarrow> wlr_scene_node_coords (n', up) = wlr_scene_node_coords (n, up)"
  by (simp add: wlr_scene_node_coords_def)

lemma scene_all_scene_of:
  "scene_all P (scene_of n up) \<longleftrightarrow>
     list_all (\<lambda>(b, x, y). P b x y)
       (buffers_at n (fst (wlr_scene_node_coords (n, up))) (fst (snd (wlr_scene_node_coords (n, up))))) \<and>
     list_all (\<lambda>(b, x, y). P b x y) (context_buffers up)"
  unfolding scene_all_def list_all_iff scene_buffers_scene_of by blast

lemma update_focus_all:
  assumes upd: "\<And>b x y. P (fst (scene_buffer_update_outputs b x y outs None)) x y"
    and inv: "scene_all P (scene_of n0 up)"
  shows "scene_all P (scene_of (fst (scene_node_update_outputs outs (n, up) None)) up)"
proof -
  let ?c = "wlr_scene_node_coords (n, up)"
  let ?n' = "fst (scene_node_update_outputs outs (n, up) None)"
  have n': "?n' = fst (scene_node_update_outputs_rec n (fst ?c) (fst (snd ?c)) outs None)"
    by (simp add: scene_node_update_outputs_def split_beta)
  have "wlr_scene_node_coords (?n', up) = ?c"
    unfolding n' by (rule coords_map_header_same) simp
  then have "list_all (\<lambda>(b, x, y). P b x y)
     (buffers_at ?n' (fst (wlr_scene_node_coords (?n', up))) (fst (snd (wlr_scene_node_coords (?n', up)))))"
    using update_rec_all[of P outs n "fst ?c" "fst (snd ?c)", OF upd] by (simp add: n')
  moreover from inv have "list_all (\<lambda>(b, x, y). P b x y) (context_buffers up)"
    by (simp add: scene_all_scene_of)
  ultimately show ?thesis by (simp add: scene_all_scene_of)
qed

lemma scene_buffer_node_update_outputs_eq:
  "scene_node_update_outputs outs (Buffer sb, up) ign =
     (Buffer (fst (scene_buffer_node_update_outputs outs (sb, up) ign)),
      snd (scene_buffer_node_update_outputs outs (sb, up) ign))"
  by (simp add: scene_node_update_outputs_def scene_buffer_node_update_outputs_def split_beta)

lemma update_buffer_focus_all:
  assumes upd: "\<And>b x y. P (fst (scene_buffer_update_outputs b x y outs None)) x y"
    and inv: "scene_all P (scene_of n0 up)"
  shows "scene_all P (scene_of (Buffer (fst (scene_buffer_node_update_outputs outs (sb, up) None))) up)"
  using update_focus_all[of P outs n0 up "Buffer sb", OF upd inv]
  by (simp add: scene_buffer_node_update_outputs_eq)

lemma set_position_all:
  assumes upd: "\<And>b x y. P (fst (scene_buffer_update_outputs b x y outs None)) x y"
    and inv: "scene_all P (scene_of n up)"
  shows "scene_all P
           (scene_of (fst (fst (wlr_scene_node_set_position outs (n, up) x y)))
                     (snd (fst (wlr_scene_node_set_position outs (n, up) x y))))"
  using inv update_focus_all[of P outs n up, OF upd inv]
  by (simp add: wlr_scene_node_set_position_def Let_def split_beta)

lemma set_dest_size_all:
  assumes upd: "\<And>b x y. P (fst (scene_buffer_update_outputs b x y outs None)) x y"
    and inv: "scene_all P (scene_of (Buffer sb) up)"
  shows "scene_all P
           (scene_of (Buffer (fst (fst (wlr_scene_buffer_set_dest_size outs (sb, up) w h))))
                     (snd (fst (wlr_scene_buffer_set_dest_size outs (sb, up) w h))))"
  using inv update_buffer_focus_all[of P outs "Buffer sb" up, OF upd inv]
  by (simp add: wlr_scene_buffer_set_dest_size_def Let_def split_beta)

lemma set_transform_all:
  assumes upd: "\<And>b x y. P (fst (scene_buffer_update_outputs b x y outs None)) x y"
    and inv: "scene_all P (scene_of (Buffer sb) up)"
  shows "scene_all P
           (scene_of (Buffer (fst (fst (wlr_scene_buffer_set_transform outs (sb, up) t))))
                     (snd (fst (wlr_scene_buffer_set_transform outs (sb, up) t))))"
  using inv update_buffer_focus_all[of P outs "Buffer sb" up, OF upd inv]
  by (simp add: wlr_scene_buffer_set_transform_def Let_def split_beta)

lemma set_buffer_with_damage_all:
  assumes upd: "\<And>b x y. P (fst (scene_buffer_update_outputs b x y outs None)) x y"
    and inv: "scene_all P (scene_of (Buffer sb) up)"
    and run: "wlr_scene_buffer_set_buffer_with_damage rto outs (sb, up) buf damage = Inr ((sb', up'), evs)"
  shows "scene_all P (scene_of (Buffer sb') up')"
proof -
  from run have "up' = up \<and> (sb' = sb \<or> (\<exists>sb2. sb' = fst (scene_buffer_node_update_outputs outs (sb2, up) None)))"
    by (auto simp: wlr_scene_buffer_set_buffer_with_damage_def Let_def split_beta
        split: option.splits if_splits)
  with inv update_buffer_focus_all[of P outs "Buffer sb" up, OF upd inv] show ?thesis by auto
qed

lemma set_buffer_returns:
  "\<exists>sb' evs. wlr_scene_buffer_set_buffer rto outs (sb, up) buf = Inr ((sb', up), evs)"
  by (auto simp: wlr_scene_buffer_set_buffer_def wlr_scene_buffer_set_buffer_with_damage_def
      Let_def split_beta split: option.splits)

lemma root_update_all:
  assumes "\<And>b x y. P (fst (scene_buffer_update_outputs b x y outs None)) x y"
  shows "scene_all P (fst (scene_node_update_outputs outs (t, []) None))"
proof -
  let ?t' = "fst (scene_node_update_outputs outs (t, []) None)"
  have t': "?t' = fst (scene_node_update_outputs_rec t (node_x (node_header t)) (node_y (node_header t)) outs None)"
    by (simp add: scene_node_update_outputs_def wlr_scene_node_coords_def)
  show ?thesis
    unfolding scene_all_def scene_buffers_def
    using update_rec_all[of P outs t "node_x (node_header t)" "node_y (node_header t)", OF assms]
    by (simp add: t')
qed

lemma root_update_bits:
  assumes "outputs_wf outs"
  shows "scene_bits outs (fst (scene_node_update_outputs outs (t, []) None))"
  unfolding scene_bits_all by (rule root_update_all) (rule recomputed_bits[OF assms])

lemma root_update_membership:
  assumes "outputs_wf outs" and "outputs_fit outs"
  shows "scene_membership outs (fst (scene_node_update_outputs outs (t, []) None))"
  unfolding scene_membership_all by (rule root_update_all) (rule recomputed_membership[OF assms])

lemma outputs_wf_move:
  "outputs_wf outs \<Longrightarrow>
   outputs_wf (map (\<lambda>so. if so_addr so = a then so\<lparr>so_x := lx, so_y := ly\<rparr> else so) outs)"
proof -
  let ?f = "\<lambda>so. if so_addr so = a then so\<lparr>so_x := lx, so_y := ly\<rparr> else so"
  have 1: "map so_addr (map ?f outs) = map so_addr outs" by (induction outs) auto
  have 2: "map so_index (map ?f outs) = map so_index outs" by (induction outs) auto
  assume "outputs_wf outs"
  then show ?thesis unfolding outputs_wf_def 1 2 by (auto simp: list_all_iff)
qed

lemma outputs_fit_move:
  "outputs_fit outs \<Longrightarrow>
   outputs_fit (map (\<lambda>so. if so_addr so = a then so\<lparr>so_x := lx, so_y := ly\<rparr> else so) outs)"
  by (induction outs) (auto simp: outputs_fit_def output_box_def)

lemma find_node_scene_of:
  "find_node a n up = Some (m, mup) \<Longrightarrow> scene_of m mup = scene_of n up"
  "find_child a h prevs rest up = Some (m, mup) \<Longrightarrow> scene_of m mup = scene_of (Tree h (prevs @ rest)) up"
  by (induction a n up and a h prevs rest up rule: find_node_find_child.induct)
    (auto split: if_splits option.splits)

lemma context_buffers_parent:
  "set (context_buffers (Crumb h prevs nexts # up)) = set (scene_buffers (scene_of (Tree h (prevs @ nexts)) up))"
  unfolding scene_buffers_scene_of
  by (auto simp: wlr_scene_node_coords_def coords_loop_origin buffers_at_children_append
      add.commute)

lemma reparent_cases:
  assumes "wlr_scene_node_reparent outs (n, up) a = Inr ((n', up'), evs)"
  obtains (same) "n' = n" "up' = up" "evs = []"
  | (moved) pa parent prevs nexts up0 h1 cs1 nu1 where
      "a = Some pa" "up = Crumb parent prevs nexts # up0"
      "find_node pa (scene_of (Tree parent (prevs @ nexts)) up0) [] = Some (Tree h1 cs1, nu1)"
      "n' = fst (scene_node_update_outputs outs (n, Crumb h1 cs1 [] # nu1) None)"
      "up' = Crumb h1 cs1 [] # nu1"
      "evs = scene_node_damage_whole outs (n, up)
             @ scene_node_damage_whole outs (n, Crumb h1 cs1 [] # nu1)
             @ snd (scene_node_update_outputs outs (n, Crumb h1 cs1 [] # nu1) None)"
proof -
  from assms obtain pa where a: "a = Some pa"
    by (cases a) (simp_all add: wlr_scene_node_reparent_def)
  show thesis
  proof (cases "case up of [] \<Rightarrow> False | c # cs \<Rightarrow> node_addr (crumb_header c) = pa")
    case True
    with assms a show ?thesis by (intro same) (simp_all add: wlr_scene_node_reparent_def)
  next
    case False
    with assms a obtain h cs nu where
      f0: "find_node pa (scene_of n up) [] = Some (Tree h cs, nu)"
      by (auto simp: wlr_scene_node_reparent_def split: option.splits scene_node.splits)
    with assms a False have
      nc: "node_addr (node_header n) \<notin> set (node_addr h # map (\<lambda>c. node_addr (crumb_header c)) nu)"
      by (auto simp: wlr_scene_node_reparent_def split: if_splits)
    with assms a False f0 obtain parent prevs nexts up0 where
      up: "up = Crumb parent prevs nexts # up0"
      by (cases up; cases "hd up") (auto simp: wlr_scene_node_reparent_def)
    with assms a False f0 nc obtain h1 cs1 nu1 where
      f1: "find_node pa (scene_of (Tree parent (prevs @ nexts)) up0) [] = Some (Tree h1 cs1, nu1)"
      by (auto simp: wlr_scene_node_reparent_def Let_def split: option.splits scene_node.splits)
    from assms a False f0 nc up f1 show ?thesis
      by (intro moved[of pa parent prevs nexts up0 h1 cs1 nu1])
        (auto simp: wlr_scene_node_reparent_def Let_def split_beta)
  qed
qed

lemma reparent_all:
  assumes upd: "\<And>b x y. P (fst (scene_buffer_update_outputs b x y outs None)) x y"
    and inv: "scene_all P (scene_of n up)"
    and run: "wlr_scene_node_reparent outs (n, up) a = Inr ((n', up'), evs)"
  shows "scene_all P (scene_of n' up')"
  using run
proof (cases rule: reparent_cases)
  case same
  with inv show ?thesis by simp
next
  case (moved pa parent prevs nexts up0 h1 cs1 nu1)
  from find_node_scene_of(1)[OF moved(3)]
  have t1: "scene_of (Tree h1 cs1) nu1 = scene_of (Tree parent (prevs @ nexts)) up0"
    by simp
  have "set (context_buffers (Crumb h1 cs1 [] # nu1)) = set (context_buffers up)"
    unfolding moved(2) context_buffers_parent using t1 by simp
  moreover from inv have "list_all (\<lambda>(b, x, y). P b x y) (context_buffers up)"
    by (simp add: scene_all_scene_of)
  ultimately have "list_all (\<lambda>(b, x, y). P b x y) (context_buffers up')"
    by (simp add: list_all_iff moved(5))
  then have "scene_all P (scene_of (Tree (node_header n) []) up')"
    by (simp add: scene_all_scene_of)
  from update_focus_all[of P outs _ up' n, OF upd this] show ?thesis
    by (simp add: moved(4,5))
qed


section \<open>The enter and leave signals of one recomputation\<close>

lemma signals_count_absent:
  "a \<notin> so_addr ` set outs \<Longrightarrow>
   count_list (update_outputs_signals sb act old outs) (Output_enter s a) = 0 \<and>
   count_list (update_outputs_signals sb act old outs) (Output_leave s a) = 0"
  by (induction outs) (auto simp: Let_def)

lemma signals_count:
  assumes "distinct (map so_addr outs)" and "so \<in> set outs"
  shows "count_list (update_outputs_signals sb act old outs) (Output_enter sb (so_addr so)) =
           (if bit act (nat (so_index so)) \<and> \<not> bit old (nat (so_index so)) then 1 else 0)"
    and "count_list (update_outputs_signals sb act old outs) (Output_leave sb (so_addr so)) =
           (if \<not> bit act (nat (so_index so)) \<and> bit old (nat (so_index so)) then 1 else 0)"
  using assms
  by (induction outs) (auto simp: Let_def mask_test0 signals_count_absent)

lemma signals_shape:
  "list_all (\<lambda>e. \<exists>so\<in>set outs. e = Output_enter sb (so_addr so) \<or> e = Output_leave sb (so_addr so))
     (update_outputs_signals sb act old outs)"
  by (induction outs) (auto simp: Let_def list_all_iff)

lemma signals_length:
  "length (update_outputs_signals sb act old outs) =
   length (filter (\<lambda>so. bit act (nat (so_index so)) \<noteq> bit old (nat (so_index so))) outs)"
  by (induction outs) (auto simp: Let_def mask_test0)



section \<open>Scenario S3, evaluated\<close>

lemma s3_outputs_wf: "outputs_wf [s3_output0, s3_output1]"
  by (simp add: outputs_wf_def s3_output0_def s3_output1_def)

lemma s3_place:
  "scene_buffer_update_outputs s3_buffer 1900 500 [s3_output0, s3_output1] None =
     (s3_buffer_placed,
      [Output_enter s3_buffer_placed 100, Output_enter s3_buffer_placed 101])"
  by (simp add: scene_buffer_update_outputs_def s3_buffer_def s3_buffer_placed_def
      s3_output0_def s3_output1_def update_outputs_primary.simps c_int_mul_def output_box_def output_mask_def
      wlr_box_intersection_def wlr_box_empty_def Let_def transform_has_90_def)

lemma s3_move:
  "scene_buffer_update_outputs s3_buffer_placed 500 500 [s3_output0, s3_output1] None =
     (s3_buffer_moved, [Output_leave s3_buffer_moved 101])"
  by (simp add: scene_buffer_update_outputs_def s3_buffer_def s3_buffer_placed_def
      s3_buffer_moved_def s3_output0_def s3_output1_def update_outputs_primary.simps c_int_mul_def
      output_box_def output_mask_def wlr_box_intersection_def wlr_box_empty_def Let_def
      transform_has_90_def)

lemma s3_outputs_fit: "outputs_fit [s3_output0, s3_output1]"
  by (simp add: outputs_fit_def output_box_def s3_output0_def s3_output1_def)

lemma s3_placed_within: "active_within [s3_output0, s3_output1] s3_buffer_placed"
  using update_outputs_bits_general[OF s3_outputs_wf s3_place] by simp

section \<open>Enter and leave signals are the symmetric difference\<close>

text \<open>C3. One membership recomputation of a buffer node (\<open>scene_buffer_update_outputs\<close>, which
  every mutation that recomputes membership calls once per buffer node) emits exactly the
  symmetric difference of the old and the new \<open>active_outputs\<close>: for every scene output
  there is one \<open>output_enter\<close> when its bit is newly set and none otherwise, one
  \<open>output_leave\<close> when its bit is newly cleared and none otherwise; every emitted signal is
  an enter or a leave for one of the scene's outputs; and the number of signals is the
  number of bits that differ. The scene is well formed: the outputs have distinct indices
  below 64, and the old bitset has no bit outside the indices of the outputs.\<close>

theorem enter_leave_symmetric_difference:
  assumes wf: "outputs_wf outs" and within: "active_within outs b"
    and run: "scene_buffer_update_outputs b lx ly outs ign = (b', evs)"
  shows "list_all (\<lambda>so.
            count_list evs (Output_enter b' (so_addr so)) =
              (if bit (active_outputs b') (nat (so_index so)) \<and>
                  \<not> bit (active_outputs b) (nat (so_index so)) then 1 else 0) \<and>
            count_list evs (Output_leave b' (so_addr so)) =
              (if \<not> bit (active_outputs b') (nat (so_index so)) \<and>
                  bit (active_outputs b) (nat (so_index so)) then 1 else 0)) outs \<and>
         list_all (\<lambda>e. \<exists>so\<in>set outs. e = Output_enter b' (so_addr so) \<or>
                                     e = Output_leave b' (so_addr so)) evs \<and>
         length evs = card {i. bit (active_outputs b') i \<noteq> bit (active_outputs b) i}"
proof -
  let ?new = "active_outputs b'" and ?old = "active_outputs b"
  from run obtain l sb1 active where
    p: "update_outputs_primary (buffer_box b lx ly) None (filter (\<lambda>so. ign \<noteq> Some (so_addr so)) outs)
         (0, b\<lparr>primary_output := None\<rparr>, 0) = (l, sb1, active)"
    and b': "b' = sb1\<lparr>active_outputs := active\<rparr>"
    and evs: "evs = update_outputs_signals b' active (active_outputs sb1) outs"
    by (rule scene_buffer_update_outputs_unfold)
  from primary_largest[OF p] obtain q where "sb1 = b\<lparr>primary_output := q\<rparr>" by auto
  then have old: "active_outputs sb1 = ?old" by simp
  have new: "active = ?new" by (simp add: b')
  have evs': "evs = update_outputs_signals b' ?new ?old outs" using evs old new by simp
  have dist: "distinct (map so_addr outs)" using wf by (simp add: outputs_wf_def)
  have 1: "list_all (\<lambda>so.
            count_list evs (Output_enter b' (so_addr so)) =
              (if bit ?new (nat (so_index so)) \<and> \<not> bit ?old (nat (so_index so)) then 1 else 0) \<and>
            count_list evs (Output_leave b' (so_addr so)) =
              (if \<not> bit ?new (nat (so_index so)) \<and> bit ?old (nat (so_index so)) then 1 else 0)) outs"
    unfolding list_all_iff evs' using signals_count[OF dist] by blast
  have 2: "list_all (\<lambda>e. \<exists>so\<in>set outs. e = Output_enter b' (so_addr so) \<or>
                                     e = Output_leave b' (so_addr so)) evs"
    unfolding evs' by (rule signals_shape)
  have "active_within (filter (\<lambda>so. ign \<noteq> Some (so_addr so)) outs) b'"
    using update_outputs_bits_general[OF wf run] by simp
  then have within': "active_within outs b'" by (auto simp: active_within_def)
  let ?changed = "\<lambda>i. bit ?new i \<noteq> bit ?old i"
  let ?ix = "\<lambda>so. nat (so_index so)"
  have inj: "inj_on ?ix (set outs)"
    using outputs_wf_index_inj[OF wf] by (auto simp: inj_on_def)
  have "{i. ?changed i} = ?ix ` {so \<in> set outs. ?changed (?ix so)}"
    using within within' by (auto simp: active_within_def)
  then have "card {i. ?changed i} = card (?ix ` set (filter (\<lambda>so. ?changed (?ix so)) outs))"
    by simp
  also have "\<dots> = card (set (filter (\<lambda>so. ?changed (?ix so)) outs))"
    by (rule card_image) (rule inj_on_subset[OF inj], simp)
  also have "\<dots> = length (filter (\<lambda>so. ?changed (?ix so)) outs)"
  proof (rule distinct_card)
    from dist have "distinct outs" by (simp add: distinct_map)
    then show "distinct (filter (\<lambda>so. ?changed (?ix so)) outs)" by (rule distinct_filter)
  qed
  finally have 3: "length evs = card {i. ?changed i}"
    unfolding evs' signals_length by simp
  from 1 2 3 show ?thesis by blast
qed


theorem enter_leave_symmetric_difference_witness:
  "outputs_wf [s3_output0, s3_output1] \<and>
   active_within [s3_output0, s3_output1] s3_buffer_placed \<and>
   scene_buffer_update_outputs s3_buffer_placed 500 500 [s3_output0, s3_output1] None =
     (s3_buffer_moved, [Output_leave s3_buffer_moved 101]) \<and>
   count_list [Output_leave s3_buffer_moved 101] (Output_leave s3_buffer_moved 101) = 1 \<and>
   length [Output_leave s3_buffer_moved 101] =
     card {i. bit (active_outputs s3_buffer_moved) i \<noteq> bit (active_outputs s3_buffer_placed) i}"
  using enter_leave_symmetric_difference[OF s3_outputs_wf s3_placed_within s3_move]
    s3_outputs_wf s3_placed_within s3_move
  by simp

section \<open>Signals are emitted after the node is updated\<close>




section \<open>Creation of a scene output\<close>

lemma create_index_loop_spec:
  assumes "sorted_wrt (<) (map so_index rest)" and "\<forall>so\<in>set rest. prev < so_index so"
    and "create_index_loop prev passed rest = (p, pa, re)"
  shows "\<exists>mid. pa = passed @ mid \<and> rest = mid @ re \<and> map so_index mid = [prev + 1..p] \<and>
           prev \<le> p \<and> (\<forall>so\<in>set re. p + 1 < so_index so)"
  using assms
proof (induction rest arbitrary: prev passed)
  case Nil
  then show ?case by simp
next
  case (Cons cur rest)
  show ?case
  proof (cases "prev + 1 = so_index cur")
    case False
    with Cons.prems have res: "p = prev" "pa = passed" "re = cur # rest" by simp_all
    have "\<forall>so\<in>set (cur # rest). prev + 1 < so_index so"
      using Cons.prems(1,2) False by force
    with res show ?thesis by simp
  next
    case True
    with Cons.prems have run: "create_index_loop (so_index cur) (passed @ [cur]) rest = (p, pa, re)"
      by simp
    have s: "sorted_wrt (<) (map so_index rest)" and g: "\<forall>so\<in>set rest. so_index cur < so_index so"
      using Cons.prems(1) by simp_all
    from Cons.IH[OF s g run] obtain mid where mid: "pa = (passed @ [cur]) @ mid" "rest = mid @ re"
      "map so_index mid = [so_index cur + 1..p]" "so_index cur \<le> p" "\<forall>so\<in>set re. p + 1 < so_index so"
      by blast
    have "map so_index (cur # mid) = [prev + 1..p]"
      using mid(3,4) True upto_rec1[of "so_index cur" p] by simp
    with mid True show ?thesis
      by (intro exI[of _ "cur # mid"]) simp
  qed
qed


text \<open>What \<open>wlr_scene_output_create\<close> does when both allocations succeed.\<close>

lemma output_create_cases:
  assumes wf: "outputs_wf (scene_outputs scene)"
    and fresh: "a \<notin> so_addr ` set (scene_outputs scene)"
  obtains (fail)
      "wlr_scene_output_create scene out (Some a) True = Inl Assertion_failed"
      "\<forall>j. 0 \<le> j \<and> j < 64 \<longrightarrow> j \<in> so_index ` set (scene_outputs scene)"
  | (ok) i outs' where
      "wlr_scene_output_create scene out (Some a) True =
         Inr (scene\<lparr>scene_outputs := outs',
                    scene_tree := fst (scene_node_update_outputs outs' (scene_tree scene, []) None)\<rparr>,
              Some \<lparr>so_addr = a, so_output = out, so_x = 0, so_y = 0,
                    so_index = i, so_prev_scanout = False\<rparr>,
              Damage_add_whole a # snd (scene_node_update_outputs outs' (scene_tree scene, []) None))"
      "i \<notin> so_index ` set (scene_outputs scene)"
      "\<forall>j. 0 \<le> j \<and> j < i \<longrightarrow> j \<in> so_index ` set (scene_outputs scene)"
      "0 \<le> i" "i < 64"
      "set outs' = insert \<lparr>so_addr = a, so_output = out, so_x = 0, so_y = 0,
                    so_index = i, so_prev_scanout = False\<rparr> (set (scene_outputs scene))"
      "outputs_wf outs'"
proof -
  let ?outs = "scene_outputs scene"
  obtain p pa re where loop: "create_index_loop (- 1) [] ?outs = (p, pa, re)"
    using prod_cases3 by blast
  have sorted: "sorted_wrt (<) (map so_index ?outs)"
    and range: "\<forall>so\<in>set ?outs. 0 \<le> so_index so \<and> so_index so < 64"
    and dist: "distinct (map so_addr ?outs)"
    using wf by (auto simp: outputs_wf_def list_all_iff)
  from range have "\<forall>so\<in>set ?outs. - 1 < so_index so" by auto
  from create_index_loop_spec[OF sorted this loop] obtain mid where
    mid: "pa = mid" "?outs = mid @ re" "map so_index mid = [0..p]" "- 1 \<le> p"
      "\<forall>so\<in>set re. p + 1 < so_index so"
    by auto
  have ix: "so_index ` set ?outs = {0..p} \<union> so_index ` set re"
    by (subst mid(2)) (simp add: image_Un set_map[symmetric] mid(3) del: set_map)
  have free: "p + 1 \<notin> so_index ` set ?outs" unfolding ix using mid(5) by auto
  have below: "\<forall>j. 0 \<le> j \<and> j < p + 1 \<longrightarrow> j \<in> so_index ` set ?outs" unfolding ix by auto
  have le64: "p + 1 \<le> 64"
  proof (cases "mid = []")
    case True
    with mid(3,4) show ?thesis by (cases "0 \<le> p") auto
  next
    case False
    then have "0 \<le> p" using mid(3) by (cases "0 \<le> p") auto
    then have "p \<in> set (map so_index mid)" unfolding mid(3) by simp
    then obtain so where "so \<in> set ?outs" "so_index so = p" using mid(2) by auto
    with range show ?thesis by force
  qed
  let ?so = "\<lparr>so_addr = a, so_output = out, so_x = 0, so_y = 0,
                   so_index = p + 1, so_prev_scanout = False\<rparr>"
  let ?outs' = "mid @ ?so # re"
  show thesis
  proof (cases "p + 1 < 64")
    case False
    then have "wlr_scene_output_create scene out (Some a) True = Inl Assertion_failed"
      by (simp add: wlr_scene_output_create_def loop Let_def split_beta)
    moreover from False le64 have "p + 1 = 64" by simp
    with below have "\<forall>j. 0 \<le> j \<and> j < 64 \<longrightarrow> j \<in> so_index ` set ?outs" by simp
    ultimately show thesis by (rule fail)
  next
    case lt: True
    have "distinct (map so_addr ?outs')"
      using dist fresh unfolding mid(2) by auto
    moreover have "sorted_wrt (<) (map so_index ?outs')"
    proof -
      have "sorted_wrt (<) (map so_index mid @ map so_index re)"
        using sorted unfolding mid(2) by simp
      then have "sorted_wrt (<) (map so_index mid)" "sorted_wrt (<) (map so_index re)"
        by (simp_all add: sorted_wrt_append)
      moreover have "\<forall>x\<in>set (map so_index mid). x < p + 1" unfolding mid(3) by simp
      moreover have "\<forall>y\<in>set (map so_index re). p + 1 < y" using mid(5) by simp
      ultimately show ?thesis by (fastforce simp: sorted_wrt_append)
    qed
    moreover have "list_all (\<lambda>so. 0 \<le> so_index so \<and> so_index so < 64) ?outs'"
      using range lt mid(4) unfolding mid(2) by (auto simp: list_all_iff)
    ultimately have wf': "outputs_wf ?outs'" by (simp add: outputs_wf_def)
    have "set (mid @ re) = set ?outs" using mid(2) by simp
    then have set': "set ?outs' = insert ?so (set ?outs)" by auto
    have "wlr_scene_output_create scene out (Some a) True =
         Inr (scene\<lparr>scene_outputs := ?outs',
                    scene_tree := fst (scene_node_update_outputs ?outs' (scene_tree scene, []) None)\<rparr>,
              Some ?so,
              Damage_add_whole a # snd (scene_node_update_outputs ?outs' (scene_tree scene, []) None))"
      using lt by (simp add: wlr_scene_output_create_def loop Let_def split_beta mid(1))
    then show thesis
      using free below mid(4) lt set' wf' by (intro ok[of ?outs' "p + 1"]) simp_all
  qed
qed

lemma gap_scene_wf: "outputs_wf (scene_outputs gap_scene)"
  by (simp add: outputs_wf_def gap_scene_def s3_output0_def gap_output2_def)

lemma gap_scene_fresh: "103 \<notin> so_addr ` set (scene_outputs gap_scene)"
  by (simp add: gap_scene_def s3_output0_def gap_output2_def)

lemma gap_create:
  "wlr_scene_output_create gap_scene new_output (Some 103) True =
     Inr (gap_scene_after, Some gap_new_scene_output,
          [Damage_add_whole 103, Output_enter gap_buffer_after 103])"
  by (simp add: wlr_scene_output_create_def gap_scene_def gap_scene_after_def gap_buffer_def
      gap_buffer_after_def gap_new_scene_output_def gap_output2_def new_output_def
      scene_node_update_outputs_def wlr_scene_node_coords_def
      scene_buffer_update_outputs_def s3_buffer_def s3_output0_def update_outputs_primary.simps c_int_mul_def
      output_box_def output_mask_def wlr_box_intersection_def wlr_box_empty_def Let_def
      transform_has_90_def)

text \<open>C8. When both allocations succeed and the outputs list is well formed (distinct
  objects, strictly increasing indices in [0, 64)), \<open>wlr_scene_output_create\<close> gives the new
  scene output the least index that no existing output uses, keeps the list sorted by
  index (and well formed), and the index lies in [0, 64). It fails its assertion, instead
  of assigning an index, exactly when the indices 0..63 are all taken.\<close>

theorem output_create_index:
  assumes wf: "outputs_wf (scene_outputs scene)"
    and fresh: "a \<notin> so_addr ` set (scene_outputs scene)"
  shows "(wlr_scene_output_create scene output (Some a) True = Inl Assertion_failed
            \<longleftrightarrow> (\<forall>j. 0 \<le> j \<and> j < 64 \<longrightarrow> j \<in> so_index ` set (scene_outputs scene))) \<and>
         (\<forall>scene' r evs.
            wlr_scene_output_create scene output (Some a) True = Inr (scene', r, evs) \<longrightarrow>
            (\<exists>so. r = Some so \<and> so_addr so = a \<and>
               so_index so \<notin> so_index ` set (scene_outputs scene) \<and>
               (\<forall>j. 0 \<le> j \<and> j < so_index so \<longrightarrow> j \<in> so_index ` set (scene_outputs scene)) \<and>
               0 \<le> so_index so \<and> so_index so < 64 \<and>
               set (scene_outputs scene') = insert so (set (scene_outputs scene)) \<and>
               outputs_wf (scene_outputs scene')))"
  using wf fresh
proof (cases rule: output_create_cases[where out = "output"])
  case fail
  then show ?thesis by simp
next
  case (ok i outs')
  have "\<not> (\<forall>j. 0 \<le> j \<and> j < 64 \<longrightarrow> j \<in> so_index ` set (scene_outputs scene))"
    using ok(2,4,5) by blast
  then show ?thesis using ok by simp
qed


theorem output_create_index_witness:
  "outputs_wf (scene_outputs gap_scene) \<and> 103 \<notin> so_addr ` set (scene_outputs gap_scene) \<and>
   wlr_scene_output_create gap_scene new_output (Some 103) True =
     Inr (gap_scene_after, Some gap_new_scene_output,
          [Damage_add_whole 103, Output_enter gap_buffer_after 103]) \<and>
   map so_index (scene_outputs gap_scene) = [0, 2] \<and>
   so_index gap_new_scene_output = 1 \<and>
   map so_index (scene_outputs gap_scene_after) = [0, 1, 2] \<and>
   outputs_wf (scene_outputs gap_scene_after)"
  using output_create_index[OF gap_scene_wf gap_scene_fresh, of new_output]
    gap_scene_wf gap_scene_fresh gap_create
  by (simp add: gap_scene_def gap_scene_after_def gap_new_scene_output_def s3_output0_def
      gap_output2_def)

section \<open>Creation of a scene output recomputes membership\<close>




lemma enter_count_append [simp]:
  "output_enter_count (xs @ ys) n a = output_enter_count xs n a + output_enter_count ys n a"
  by (simp add: output_enter_count_def)



lemma root_update_events:
  "snd (scene_node_update_outputs outs (t, []) ign) =
     concat (map (\<lambda>(b, x, y). snd (scene_buffer_update_outputs b x y outs ign)) (scene_buffers t))"
  by (simp add: scene_node_update_outputs_def wlr_scene_node_coords_def scene_buffers_def
      update_rec_events)






section \<open>Direct scan-out\<close>













section \<open>The present signal of the scan-out path\<close>




section \<open>Setters called with the current value\<close>

text \<open>C7. Every setter called with the current value of its field returns at once: the
  node pointer it returns is the one it received (so nothing in the scene has changed) and
  its trace is empty (no damage is added to any output and no signal is emitted). The
  current value of a colour or of a source box is the stored object, bit for bit, as the
  \<open>memcmp\<close> of the source compares it. This holds for \<open>set_enabled\<close>, \<open>set_position\<close>, the \<open>set_size\<close> and \<open>set_color\<close> of a rect, the
  \<open>set_source_box\<close> (given the current box, or \<open>NULL\<close> while the current box is empty),
  \<open>set_dest_size\<close> and \<open>set_transform\<close> of a buffer node, and for \<open>set_buffer\<close> with a null
  damage region and the buffer the node already has.\<close>

theorem setters_idempotent:
  "wlr_scene_node_set_enabled outs (n, up) (node_enabled (node_header n)) = ((n, up), []) \<and>
   wlr_scene_node_set_position outs (n, up) (node_x (node_header n)) (node_y (node_header n)) =
     ((n, up), []) \<and>
   wlr_scene_rect_set_size outs (r, up) (rect_width r) (rect_height r) = ((r, up), []) \<and>
   wlr_scene_rect_set_color outs (r, up) (rect_color r) = ((r, up), []) \<and>
   wlr_scene_buffer_set_source_box outs (b, up) (Some (src_box b)) = ((b, up), []) \<and>
   (wlr_fbox_empty (Some (src_box b)) \<longrightarrow>
      wlr_scene_buffer_set_source_box outs (b, up) None = ((b, up), [])) \<and>
   wlr_scene_buffer_set_dest_size outs (b, up) (dst_width b) (dst_height b) = ((b, up), []) \<and>
   wlr_scene_buffer_set_transform outs (b, up) (transform b) = ((b, up), []) \<and>
   (map_option buffer_addr buf = map_option buffer_addr (buffer b) \<longrightarrow>
      wlr_scene_buffer_set_buffer_with_damage rto outs (b, up) buf None = Inr ((b, up), []) \<and>
      wlr_scene_buffer_set_buffer rto outs (b, up) buf = Inr ((b, up), []))"
  by (simp add: wlr_scene_node_set_enabled_def wlr_scene_node_set_position_def
      wlr_scene_rect_set_size_def wlr_scene_rect_set_color_def
      wlr_scene_buffer_set_source_box_def wlr_scene_buffer_set_dest_size_def
      wlr_scene_buffer_set_transform_def wlr_scene_buffer_set_buffer_with_damage_def
      wlr_scene_buffer_set_buffer_def wlr_fbox_empty_def double_le_zero_def double_is_nan_def)

text \<open>The same setters do change the scene and add damage when the value differs: the
  rect of scenario S4 moved from (5, 5) to (6, 5) on an output of scale 1.\<close>

theorem setters_idempotent_witness:
  "wlr_fbox_empty (Some (src_box s3_buffer_placed)) \<and>
   map_option buffer_addr (buffer s3_buffer_placed) = map_option buffer_addr (buffer s3_buffer_placed) \<and>
   wlr_scene_buffer_set_source_box [s3_output0, s3_output1] (s3_buffer_placed, example_up) None =
     ((s3_buffer_placed, example_up), []) \<and>
   wlr_scene_buffer_set_buffer (\<lambda>sb b lx ly so region. region) [s3_output0, s3_output1]
     (s3_buffer_placed, example_up) (buffer s3_buffer_placed) =
     Inr ((s3_buffer_placed, example_up), []) \<and>
   wlr_scene_node_set_position [s3_output0, s3_output1] (Rect example_rect, example_up) 5 5 =
     ((Rect example_rect, example_up), []) \<and>
   wlr_scene_node_set_position [s3_output0] (Rect example_rect, example_up) 6 5 =
     ((Rect (example_rect\<lparr>rect_node := \<lparr>node_addr = 2, node_x = 6, node_y = 5, node_enabled = True\<rparr>\<rparr>),
       example_up),
      [Damage_add_box 100 \<lparr>box_x = 5, box_y = 5, box_width = 10, box_height = 10\<rparr>,
       Damage_add_box 100 \<lparr>box_x = 6, box_y = 5, box_width = 10, box_height = 10\<rparr>])"
proof -
  have e: "wlr_fbox_empty (Some (src_box s3_buffer_placed))"
    by (simp add: wlr_fbox_empty_def double_le_zero_def double_is_nan_def s3_buffer_placed_def s3_buffer_def)
  have p: "node_x (rect_node example_rect) = 5" "node_y (rect_node example_rect) = 5"
    by (simp_all add: example_rect_def)
  have m: "wlr_scene_node_set_position [s3_output0] (Rect example_rect, example_up) 6 5 =
     ((Rect (example_rect\<lparr>rect_node := \<lparr>node_addr = 2, node_x = 6, node_y = 5, node_enabled = True\<rparr>\<rparr>),
       example_up),
      [Damage_add_box 100 \<lparr>box_x = 5, box_y = 5, box_width = 10, box_height = 10\<rparr>,
       Damage_add_box 100 \<lparr>box_x = 6, box_y = 5, box_width = 10, box_height = 10\<rparr>])"
    by (simp add: wlr_scene_node_set_position_def example_rect_def example_up_def
        scene_node_damage_whole_def wlr_scene_node_coords_def scene_node_update_outputs_def
        s3_output0_def scale_box_def scale_length_def c_round_def Let_def)
  from setters_idempotent[of "[s3_output0, s3_output1]" "Rect example_rect" example_up
      example_rect s3_buffer_placed "buffer s3_buffer_placed" "\<lambda>sb b lx ly so region. region"]
  show ?thesis using e m by (simp add: p)
qed

text \<open>A colour or a source box that is equal to the stored one as numbers and differs from
  it in the sign of a zero is another value: the setter stores it and damages the node.\<close>

lemma set_source_box_signed_zero:
  "wlr_scene_buffer_set_source_box [s3_output0] (cropped_buffer, example_up) (Some negative_zero_box) =
     ((cropped_buffer\<lparr>src_box := negative_zero_box\<rparr>, example_up),
      [Damage_add_box 100 \<lparr>box_x = 1900, box_y = 500, box_width = 100, box_height = 100\<rparr>])"
  by (simp add: wlr_scene_buffer_set_source_box_def cropped_buffer_def negative_zero_box_def
      s3_buffer_placed_def s3_buffer_def example_up_def wlr_fbox_empty_def double_le_zero_def
      double_is_nan_def scene_node_damage_whole_def wlr_scene_node_coords_def s3_output0_def
      scale_box_def scale_length_def c_round_def Let_def transform_has_90_def)

lemma rect_set_color_signed_zero:
  "wlr_scene_rect_set_color [s3_output0] (black_rect, example_up) negative_zero_black =
     ((black_rect\<lparr>rect_color := negative_zero_black\<rparr>, example_up),
      [Damage_add_box 100 \<lparr>box_x = 5, box_y = 5, box_width = 10, box_height = 10\<rparr>])"
  by (simp add: wlr_scene_rect_set_color_def black_rect_def negative_zero_black_def
      example_rect_def example_up_def scene_node_damage_whole_def wlr_scene_node_coords_def
      s3_output0_def scale_box_def scale_length_def c_round_def Let_def)

section \<open>Destruction of a subtree\<close>

lemma damage_whole_outputs_shape:
  "e \<in> set (damage_whole_outputs outs lx ly w h) \<Longrightarrow> \<exists>a b. e = Damage_add_box a b"
  by (induction outs) auto

lemma damage_whole_rec_shape:
  "e \<in> set (scene_node_damage_whole_rec n outs lx ly) \<Longrightarrow> \<exists>a b. e = Damage_add_box a b"
  "e \<in> set (damage_whole_children cs outs lx ly) \<Longrightarrow> \<exists>a b. e = Damage_add_box a b"
  by (induction n outs lx ly and cs outs lx ly
      rule: scene_node_damage_whole_rec_damage_whole_children.induct)
    (auto simp: split_beta dest: damage_whole_outputs_shape split: if_splits)

lemma damage_whole_shape:
  "e \<in> set (scene_node_damage_whole outs p) \<Longrightarrow> \<exists>a b. e = Damage_add_box a b"
  by (auto simp: scene_node_damage_whole_def split_beta dest: damage_whole_rec_shape split: if_splits)

lemma filter_damage_whole:
  assumes "\<And>a b. \<not> P (Damage_add_box a b)"
  shows "filter P (scene_node_damage_whole outs p) = []"
  using assms damage_whole_shape[of _ outs p] by (fastforce simp: filter_empty_conv)

lemma destroy_leave_shape:
  "e \<in> set (destroy_leave_outputs sb act outs) \<Longrightarrow> \<exists>a. e = Output_leave sb a"
  by (induction outs) (auto split: if_splits)

lemma filter_destroy_leave:
  assumes "\<And>s a. \<not> P (Output_leave s a)"
  shows "filter P (destroy_leave_outputs sb act outs) = []"
  using assms destroy_leave_shape[of _ sb act outs] by (fastforce simp: filter_empty_conv)

lemma destroy_rec_teardown:
  "filter is_destroy_or_free (scene_node_destroy_rec outs up n) = teardown_order n"
  "filter is_destroy_or_free (destroy_children outs up h cs) = teardown_children cs"
  by (induction outs up n and outs up h cs rule: scene_node_destroy_rec_destroy_children.induct)
    (simp_all add: filter_damage_whole filter_destroy_leave)

lemma destroy_signals_append [simp]:
  "destroy_signals (xs @ ys) = destroy_signals xs @ destroy_signals ys"
  by (induction xs rule: destroy_signals.induct) simp_all

lemma teardown_preorder:
  "destroy_signals (teardown_order n) = node_addrs n"
  "destroy_signals (teardown_children cs) = children_addrs cs"
  by (induction n and cs rule: teardown_order_teardown_children.induct) simp_all

lemma destroy_signals_filter:
  "destroy_signals (filter is_destroy_or_free evs) = destroy_signals evs"
  by (induction evs rule: destroy_signals.induct) simp_all


lemma concat_filter_none:
  "(\<And>c. c \<in> set bs \<Longrightarrow> filter Q (f c) = []) \<Longrightarrow> concat (map (\<lambda>c. filter Q (f c)) bs) = []"
  by (induction bs) simp_all

lemma concat_filter_one:
  assumes "distinct (map key bs)" and "x \<in> set bs"
    and "\<And>c. c \<in> set bs \<Longrightarrow> length (filter Q (f c)) = (if key c = key x \<and> P c then 1 else 0)"
  shows "length (concat (map (\<lambda>c. filter Q (f c)) bs)) = (if P x then 1 else 0)"
  using assms
proof (induction bs)
  case Nil
  then show ?case by simp
next
  case (Cons c bs)
  show ?case
  proof (cases "c = x")
    case True
    have "concat (map (\<lambda>c. filter Q (f c)) bs) = []"
    proof (rule concat_filter_none)
      fix d assume d: "d \<in> set bs"
      from Cons.prems(1) True have "key x \<notin> key ` set bs" by simp
      with d have "key d \<noteq> key x" by (metis imageI)
      with Cons.prems(3)[of d] d show "filter Q (f d) = []" by simp
    qed
    with Cons.prems(3)[of x] True show ?thesis by simp
  next
    case False
    with Cons.prems(2) have mem: "x \<in> set bs" by simp
    with Cons.prems(1) have "key c \<noteq> key x" by force
    with Cons.prems(3)[of c] have "filter Q (f c) = []" by simp
    moreover have "length (concat (map (\<lambda>c. filter Q (f c)) bs)) = (if P x then 1 else 0)"
      using Cons.prems mem by (intro Cons.IH) auto
    ultimately show ?thesis by simp
  qed
qed

text \<open>The leave signals that the destruction of one buffer node emits.\<close>

lemma destroy_leave_count_absent:
  "a \<notin> so_addr ` set outs \<Longrightarrow> filter (is_leave_for n a) (destroy_leave_outputs sb act outs) = []"
  by (induction outs) auto

lemma destroy_leave_count:
  assumes "distinct (map so_addr outs)" and "so \<in> set outs"
  shows "length (filter (is_leave_for n (so_addr so)) (destroy_leave_outputs sb act outs)) =
     (if node_addr (buf_node sb) = n \<and> bit act (nat (so_index so)) then 1 else 0)"
  using assms
  by (induction outs) (auto simp: mask_test0 destroy_leave_count_absent)

lemma destroy_rec_leaves:
  "filter (is_leave_for a s) (scene_node_destroy_rec outs up n) =
     concat (map (\<lambda>c. filter (is_leave_for a s)
                    (destroy_leave_outputs (fst c) (active_outputs (fst c)) outs)) (buffers_at n lx ly))"
  "filter (is_leave_for a s) (destroy_children outs up h cs) =
     concat (map (\<lambda>c. filter (is_leave_for a s)
                    (destroy_leave_outputs (fst c) (active_outputs (fst c)) outs)) (buffers_at_children cs lx ly))"
proof (induction outs up n and outs up h cs arbitrary: lx ly and lx ly
    rule: scene_node_destroy_rec_destroy_children.induct)
  case (1 outputs up scene_buffer)
  have "active_outputs scene_buffer = 0 \<Longrightarrow>
      filter (is_leave_for a s) (destroy_leave_outputs scene_buffer 0 outputs) = []"
    by (induction outputs) simp_all
  then show ?case by (simp add: filter_damage_whole)
next
  case (2 outputs up r)
  then show ?case by (simp add: filter_damage_whole)
next
  case (3 outputs up h children)
  then show ?case by (simp add: filter_damage_whole)
next
  case (4 outputs up h)
  then show ?case by simp
next
  case (5 outputs up h child rest)
  then show ?case by simp
qed

lemma buffers_at_addrs:
  "(b, x, y) \<in> set (buffers_at n lx ly) \<Longrightarrow> node_addr (buf_node b) \<in> set (node_addrs n)"
  "(b, x, y) \<in> set (buffers_at_children cs lx ly) \<Longrightarrow> node_addr (buf_node b) \<in> set (children_addrs cs)"
  by (induction n lx ly and cs lx ly rule: buffers_at_buffers_at_children.induct) auto

lemma buffers_at_distinct:
  "distinct (node_addrs n) \<Longrightarrow> buffer_addrs_distinct (buffers_at n lx ly)"
  "distinct (children_addrs cs) \<Longrightarrow> buffer_addrs_distinct (buffers_at_children cs lx ly)"
  unfolding buffer_addrs_distinct_def
proof (induction n lx ly and cs lx ly rule: buffers_at_buffers_at_children.induct)
  case (5 child rest lx ly)
  have "node_addr (buf_node b) \<noteq> node_addr (buf_node c)"
    if "(b, x, y) \<in> set (buffers_at child (lx + node_x (node_header child)) (ly + node_y (node_header child)))"
      and "(c, cx, cy) \<in> set (buffers_at_children rest lx ly)" for b x y c cx cy
    using buffers_at_addrs(1)[OF that(1)] buffers_at_addrs(2)[OF that(2)] 5(3) by auto
  then have "set (map (\<lambda>c. node_addr (buf_node (fst c)))
        (buffers_at child (lx + node_x (node_header child)) (ly + node_y (node_header child)))) \<inter>
      set (map (\<lambda>c. node_addr (buf_node (fst c))) (buffers_at_children rest lx ly)) = {}"
    by (auto simp: image_iff)
  moreover have "distinct (node_addrs child)" "distinct (children_addrs rest)" using 5(3) by simp_all
  ultimately show ?case using 5(1,2) by simp
qed simp_all

lemma destroy_rec_leave_count:
  assumes "outputs_wf outs" and "distinct (node_addrs n)"
    and "(b, x, y) \<in> set (buffers_at n lx ly)" and "so \<in> set outs"
  shows "output_leave_count (scene_node_destroy_rec outs up n) (node_addr (buf_node b)) (so_addr so) =
     (if bit (active_outputs b) (nat (so_index so)) then 1 else 0)"
proof -
  have d: "distinct (map so_addr outs)" using assms(1) by (simp add: outputs_wf_def)
  have k: "distinct (map (\<lambda>c. node_addr (buf_node (fst c))) (buffers_at n lx ly))"
    using buffers_at_distinct(1)[OF assms(2), of lx ly]
    by (simp add: buffer_addrs_distinct_def)
  have "length (concat (map (\<lambda>c. filter (is_leave_for (node_addr (buf_node b)) (so_addr so))
           (destroy_leave_outputs (fst c) (active_outputs (fst c)) outs)) (buffers_at n lx ly))) =
        (if bit (active_outputs (fst (b, x, y))) (nat (so_index so)) then 1 else 0)"
    by (rule concat_filter_one[where key = "\<lambda>c. node_addr (buf_node (fst c))"
          and P = "\<lambda>c. bit (active_outputs (fst c)) (nat (so_index so))", OF k assms(3)])
      (simp add: destroy_leave_count[OF d assms(4)])
  then show ?thesis
    unfolding output_leave_count_def destroy_rec_leaves(1)[where lx = lx and ly = ly]
    by simp
qed


lemma teardown_free_addrs:
  "Free a \<in> set (teardown_order n) \<Longrightarrow> a \<in> set (node_addrs n)"
  "Free a \<in> set (teardown_children cs) \<Longrightarrow> a \<in> set (children_addrs cs)"
  by (induction n and cs rule: teardown_order_teardown_children.induct) auto

lemma destroy_rec_free_addrs:
  "Free a \<in> set (scene_node_destroy_rec outs up n) \<Longrightarrow> a \<in> set (node_addrs n)"
  "Free a \<in> set (destroy_children outs up h cs) \<Longrightarrow> a \<in> set (children_addrs cs)"
proof -
  assume "Free a \<in> set (scene_node_destroy_rec outs up n)"
  then have "Free a \<in> set (filter is_destroy_or_free (scene_node_destroy_rec outs up n))" by simp
  then show "a \<in> set (node_addrs n)"
    unfolding destroy_rec_teardown by (rule teardown_free_addrs)
next
  assume "Free a \<in> set (destroy_children outs up h cs)"
  then have "Free a \<in> set (filter is_destroy_or_free (destroy_children outs up h cs))" by simp
  then show "a \<in> set (children_addrs cs)"
    unfolding destroy_rec_teardown by (rule teardown_free_addrs)
qed

lemma destroy_leave_other_node:
  "node_addr (buf_node sb) \<noteq> n \<Longrightarrow> filter (is_leave_for n a) (destroy_leave_outputs sb act outs) = []"
  by (induction outs) auto

lemma destroy_rec_no_leaves:
  "a \<notin> set (node_addrs n) \<Longrightarrow> filter (is_leave_for a s) (scene_node_destroy_rec outs up n) = []"
  "a \<notin> set (children_addrs cs) \<Longrightarrow> filter (is_leave_for a s) (destroy_children outs up h cs) = []"
proof -
  assume a: "a \<notin> set (node_addrs n)"
  show "filter (is_leave_for a s) (scene_node_destroy_rec outs up n) = []"
    unfolding destroy_rec_leaves(1)[where lx = 0 and ly = 0]
  proof (rule concat_filter_none)
    fix c assume "c \<in> set (buffers_at n 0 0)"
    then have "node_addr (buf_node (fst c)) \<in> set (node_addrs n)"
      using buffers_at_addrs(1)[of "fst c" "fst (snd c)" "snd (snd c)" n 0 0] by simp
    with a have "node_addr (buf_node (fst c)) \<noteq> a" by auto
    then show "filter (is_leave_for a s) (destroy_leave_outputs (fst c) (active_outputs (fst c)) outs) = []"
      by (rule destroy_leave_other_node)
  qed
next
  assume a: "a \<notin> set (children_addrs cs)"
  show "filter (is_leave_for a s) (destroy_children outs up h cs) = []"
    unfolding destroy_rec_leaves(2)[where lx = 0 and ly = 0]
  proof (rule concat_filter_none)
    fix c assume "c \<in> set (buffers_at_children cs 0 0)"
    then have "node_addr (buf_node (fst c)) \<in> set (children_addrs cs)"
      using buffers_at_addrs(2)[of "fst c" "fst (snd c)" "snd (snd c)" cs 0 0] by simp
    with a have "node_addr (buf_node (fst c)) \<noteq> a" by auto
    then show "filter (is_leave_for a s) (destroy_leave_outputs (fst c) (active_outputs (fst c)) outs) = []"
      by (rule destroy_leave_other_node)
  qed
qed

lemma freed_once_prepend:
  "freed_once a s evs \<Longrightarrow> Free a \<notin> set xs \<Longrightarrow> freed_once a s (xs @ evs)"
  unfolding freed_once_def
  by (elim exE conjE) (rule_tac x = "xs @ pre" in exI, simp)

lemma freed_once_append:
  "freed_once a s evs \<Longrightarrow> filter (is_leave_for a s) ys = [] \<Longrightarrow> freed_once a s (evs @ ys)"
  unfolding freed_once_def
  by (elim exE conjE) (rule_tac x = pre in exI, rule_tac x = "post @ ys" in exI, simp)

lemma freed_once_last:
  "Free a \<notin> set xs \<Longrightarrow> freed_once a s (xs @ [Free a])"
  unfolding freed_once_def by (rule exI[of _ xs], rule exI[of _ "[]"]) simp

lemma damage_whole_no_free: "Free a \<notin> set (scene_node_damage_whole outs p)"
  using damage_whole_shape[of "Free a" outs p] by auto

lemma destroy_leave_no_free: "Free a \<notin> set (destroy_leave_outputs sb act outs)"
  using destroy_leave_shape[of "Free a" sb act outs] by auto

lemma destroy_rec_freed_once:
  "distinct (node_addrs n) \<Longrightarrow> a \<in> set (node_addrs n) \<Longrightarrow>
     freed_once a s (scene_node_destroy_rec outs up n)"
  "distinct (children_addrs cs) \<Longrightarrow> a \<in> set (children_addrs cs) \<Longrightarrow>
     freed_once a s (destroy_children outs up h cs)"
proof (induction outs up n and outs up h cs rule: scene_node_destroy_rec_destroy_children.induct)
  case (1 outputs up scene_buffer)
  let ?xs = "scene_node_damage_whole outputs (Buffer scene_buffer, up)
     @ [Signal_destroy (node_addr (buf_node scene_buffer))]
     @ (if active_outputs scene_buffer \<noteq> 0
        then destroy_leave_outputs scene_buffer (active_outputs scene_buffer) outputs
        else [])
     @ [Texture_destroy (texture scene_buffer), Buffer_unlock (buffer scene_buffer)]"
  have "Free a \<notin> set ?xs" by (simp add: damage_whole_no_free destroy_leave_no_free)
  from freed_once_last[OF this, of s] 1 show ?case by simp
next
  case (2 outputs up r)
  let ?xs = "scene_node_damage_whole outputs (Rect r, up) @ [Signal_destroy (node_addr (rect_node r))]"
  have "Free a \<notin> set ?xs" by (simp add: damage_whole_no_free)
  from freed_once_last[OF this, of s] 2 show ?case by simp
next
  case (3 outputs up h children)
  let ?hd = "scene_node_damage_whole outputs (Tree h children, up) @ [Signal_destroy (node_addr h)]"
  have hd: "Free a \<notin> set ?hd" by (simp add: damage_whole_no_free)
  show ?case
  proof (cases "a = node_addr h")
    case True
    with 3(2) have "a \<notin> set (children_addrs children)" by simp
    then have "Free a \<notin> set (destroy_children outputs up h children)"
      using destroy_rec_free_addrs(2) by blast
    with hd have "Free a \<notin> set (?hd @ destroy_children outputs up h children)" by simp
    from freed_once_last[OF this, of s] True show ?thesis by simp
  next
    case False
    with 3 have "freed_once a s (destroy_children outputs up h children)" by simp
    then have "freed_once a s (destroy_children outputs up h children @ [Free (node_addr h)])"
      by (rule freed_once_append) simp
    from freed_once_prepend[OF this hd] show ?thesis by simp
  qed
next
  case (4 outputs up h)
  then show ?case by simp
next
  case (5 outputs up h child rest)
  show ?case
  proof (cases "a \<in> set (node_addrs child)")
    case True
    with 5 have "freed_once a s (scene_node_destroy_rec outputs (Crumb h [] rest # up) child)" by simp
    moreover from True 5(3) have "a \<notin> set (children_addrs rest)" by auto
    then have "filter (is_leave_for a s) (destroy_children outputs up h rest) = []"
      by (rule destroy_rec_no_leaves)
    ultimately show ?thesis by (simp add: freed_once_append)
  next
    case False
    with 5 have "freed_once a s (destroy_children outputs up h rest)" by simp
    moreover from False have "Free a \<notin> set (scene_node_destroy_rec outputs (Crumb h [] rest # up) child)"
      using destroy_rec_free_addrs(1) by blast
    ultimately show ?thesis by (simp add: freed_once_prepend)
  qed
qed

lemma freed_once_after_free:
  assumes "freed_once a s evs"
  shows "output_leave_count (after_free a evs) a s = 0 \<and> Free a \<in> set evs"
proof -
  from assms obtain pre post where e: "evs = pre @ Free a # post" "Free a \<notin> set pre"
    "filter (is_leave_for a s) post = []"
    unfolding freed_once_def by blast
  have "dropWhile (\<lambda>e. e \<noteq> Free a) (pre @ Free a # post) = dropWhile (\<lambda>e. e \<noteq> Free a) (Free a # post)"
    using e(2) by (intro dropWhile_append2) auto
  then have "after_free a evs = Free a # post" by (simp add: after_free_def e(1))
  with e show ?thesis by (simp add: output_leave_count_def)
qed


lemma signals_nil:
  "(\<And>so. so \<in> set outs \<Longrightarrow> bit act (nat (so_index so)) = bit old (nat (so_index so))) \<Longrightarrow>
   update_outputs_signals sb act old outs = []"
  by (induction outs) (simp_all add: Let_def mask_test0)

lemma output_destroy_buffer_step:
  assumes wf: "outputs_wf (so # rest)"
    and mem: "bits_ok (so # rest) b x y"
    and run: "scene_buffer_update_outputs b x y (so # rest) (Some (so_addr so)) = (b', evs)"
  shows "evs = (if bit (active_outputs b) (nat (so_index so)) then [Output_leave b' (so_addr so)] else [])"
    and "bits_ok rest b' x y" and "active_within rest b'"
    and "\<And>s. s \<in> set rest \<Longrightarrow> bit (active_outputs b') (nat (so_index s)) = bit (active_outputs b) (nat (so_index s))"
    and "buf_node b' = buf_node b"
proof -
  have dist: "distinct (map so_addr (so # rest))" using wf by (simp add: outputs_wf_def)
  then have flt: "filter (\<lambda>s. Some (so_addr so) \<noteq> Some (so_addr s)) (so # rest) = rest"
    by (auto simp: filter_id_conv)
  from update_outputs_bits_general[OF wf run] show
    m': "bits_ok rest b' x y" and w': "active_within rest b'"
    unfolding flt by simp_all
  from run obtain p a where b': "b' = b\<lparr>primary_output := p, active_outputs := a\<rparr>"
    by (rule scene_buffer_update_outputs_fields)
  then show "buf_node b' = buf_node b" by simp
  have box: "buffer_box b' x y = buffer_box b x y" by (simp add: b')
  show same: "bit (active_outputs b') (nat (so_index s)) = bit (active_outputs b) (nat (so_index s))"
    if "s \<in> set rest" for s
    using that m' mem by (simp add: bits_ok_def list_all_iff box)
  have head: "\<not> bit (active_outputs b') (nat (so_index so))"
  proof
    assume "bit (active_outputs b') (nat (so_index so))"
    with w' obtain s where s: "s \<in> set rest" "nat (so_index s) = nat (so_index so)"
      by (auto simp: active_within_def)
    from outputs_wf_index_inj[OF wf, of s so] s have "s = so" by simp
    with s(1) dist show False by auto
  qed
  from run obtain l sb1 active where
    p: "update_outputs_primary (buffer_box b x y) None (filter (\<lambda>s. Some (so_addr so) \<noteq> Some (so_addr s)) (so # rest))
         (0, b\<lparr>primary_output := None\<rparr>, 0) = (l, sb1, active)"
    and b'': "b' = sb1\<lparr>active_outputs := active\<rparr>"
    and evs: "evs = update_outputs_signals b' active (active_outputs sb1) (so # rest)"
    by (rule scene_buffer_update_outputs_unfold)
  from primary_largest[OF p] obtain q where "sb1 = b\<lparr>primary_output := q\<rparr>" by auto
  then have old: "active_outputs sb1 = active_outputs b" by simp
  have new: "active = active_outputs b'" by (simp add: b'')
  have "update_outputs_signals b' (active_outputs b') (active_outputs b) rest = []"
    by (rule signals_nil) (rule same)
  then show "evs = (if bit (active_outputs b) (nat (so_index so)) then [Output_leave b' (so_addr so)] else [])"
    unfolding evs old new using head by (simp add: Let_def mask_test0)
qed

lemma update_rec_teardown:
  "teardown_order (fst (scene_node_update_outputs_rec n lx ly outs ign)) = teardown_order n"
  "teardown_children (fst (update_outputs_children cs lx ly outs ign)) = teardown_children cs"
  by (induction n lx ly outs ign and cs lx ly outs ign
      rule: scene_node_update_outputs_rec_update_outputs_children.induct)
    (simp_all add: split_beta, (metis prod.collapse)+)

lemma root_update_buffers:
  "scene_buffers (fst (scene_node_update_outputs outs (t, []) ign)) =
     map (\<lambda>(b, x, y). (fst (scene_buffer_update_outputs b x y outs ign), x, y)) (scene_buffers t)"
  by (simp add: scene_node_update_outputs_def wlr_scene_node_coords_def scene_buffers_def
      update_rec_buffers)

lemma root_update_teardown:
  "teardown_order (fst (scene_node_update_outputs outs (t, []) ign)) = teardown_order t"
  by (simp add: scene_node_update_outputs_def wlr_scene_node_coords_def update_rec_teardown)


lemma root_update_is_tree:
  "(\<exists>h cs. fst (scene_node_update_outputs outs (t, []) ign) = Tree h cs) = (\<exists>h cs. t = Tree h cs)"
  by (cases t) (simp_all add: scene_node_update_outputs_def split_beta)

lemma output_destroy_unfold:
  "wlr_scene_output_destroy scene (Some a) =
     (scene\<lparr>scene_tree := fst (scene_node_update_outputs (scene_outputs scene) (scene_tree scene, []) (Some a)),
            scene_outputs := filter (\<lambda>so. so_addr so \<noteq> a) (scene_outputs scene)\<rparr>,
      Scene_output_destroy a
      # snd (scene_node_update_outputs (scene_outputs scene) (scene_tree scene, []) (Some a))
      @ [Free_scene_output a])"
  by (simp add: wlr_scene_output_destroy_def split_beta)

lemma output_leave_count_append [simp]:
  "output_leave_count (xs @ ys) n a = output_leave_count xs n a + output_leave_count ys n a"
  by (simp add: output_leave_count_def)

lemma destroy_scene_outputs_leaves:
  assumes "outputs_wf outs" and "scene_outputs scene = outs"
    and "buffer_addrs_distinct (scene_buffers (scene_tree scene))"
    and "list_all (consistent outs) (scene_buffers (scene_tree scene))"
    and "destroy_scene_outputs scene outs = (scene', evs)"
  shows "scene_outputs scene' = [] \<and>
         (\<exists>h cs. scene_tree scene' = Tree h cs) = (\<exists>h cs. scene_tree scene = Tree h cs) \<and>
         teardown_order (scene_tree scene') = teardown_order (scene_tree scene) \<and>
         filter is_destroy_or_free evs = [] \<and>
         (\<forall>n s. s \<notin> so_addr ` set outs \<longrightarrow> output_leave_count evs n s = 0) \<and>
         (\<forall>c\<in>set (scene_buffers (scene_tree scene)). \<forall>so\<in>set outs.
            output_leave_count evs (node_addr (buf_node (fst c))) (so_addr so) =
              (if bit (active_outputs (fst c)) (nat (so_index so)) then 1 else 0))"
  using assms
proof (induction outs arbitrary: scene scene' evs)
  case Nil
  then show ?case by (simp add: output_leave_count_def)
next
  case (Cons so rest)
  let ?a = "so_addr so"
  let ?bs = "scene_buffers (scene_tree scene)"
  let ?upd = "scene_node_update_outputs (so # rest) (scene_tree scene, []) (Some ?a)"
  let ?f = "\<lambda>c. fst (scene_buffer_update_outputs (fst c) (fst (snd c)) (snd (snd c)) (so # rest) (Some ?a))"
  let ?g = "\<lambda>c. snd (scene_buffer_update_outputs (fst c) (fst (snd c)) (snd (snd c)) (so # rest) (Some ?a))"
  have wf: "outputs_wf (so # rest)" by fact
  have dist: "distinct (map so_addr (so # rest))" using wf by (simp add: outputs_wf_def)
  have wf_rest: "outputs_wf rest" using wf by (simp add: outputs_wf_def)
  have flt: "filter (\<lambda>s. so_addr s \<noteq> ?a) (so # rest) = rest"
    using dist by (simp add: filter_id_conv) (metis imageI)
  define scene1 where "scene1 = scene\<lparr>scene_tree := fst ?upd, scene_outputs := rest\<rparr>"
  define evs1 where "evs1 = Scene_output_destroy ?a # snd ?upd @ [Free_scene_output ?a]"
  have step: "wlr_scene_output_destroy scene (Some ?a) = (scene1, evs1)"
    unfolding output_destroy_unfold Cons.prems(2) flt scene1_def evs1_def ..
  obtain evs2 where rest_run: "destroy_scene_outputs scene1 rest = (scene', evs2)"
    and evs: "evs = evs1 @ evs2"
    using Cons.prems(5) by (auto simp: step split: prod.splits)
  have bs1: "scene_buffers (scene_tree scene1) = map (\<lambda>c. (?f c, fst (snd c), snd (snd c))) ?bs"
    by (simp add: scene1_def root_update_buffers case_prod_unfold)
  have ev_upd: "snd ?upd = concat (map ?g ?bs)"
    by (simp add: root_update_events case_prod_unfold)
  have stepc: "?g c = (if bit (active_outputs (fst c)) (nat (so_index so))
                       then [Output_leave (?f c) ?a] else [])"
      "consistent rest (?f c, fst (snd c), snd (snd c))"
      "\<And>s. s \<in> set rest \<Longrightarrow> bit (active_outputs (?f c)) (nat (so_index s)) = bit (active_outputs (fst c)) (nat (so_index s))"
      "buf_node (?f c) = buf_node (fst c)"
    if c: "c \<in> set ?bs" for c
  proof -
    from c Cons.prems(4) have m: "bits_ok (so # rest) (fst c) (fst (snd c)) (snd (snd c))"
      by (simp add: list_all_iff consistent_def)
    have r: "scene_buffer_update_outputs (fst c) (fst (snd c)) (snd (snd c)) (so # rest) (Some ?a) = (?f c, ?g c)"
      by simp
    from output_destroy_buffer_step[OF wf m r]
    show "?g c = (if bit (active_outputs (fst c)) (nat (so_index so))
                       then [Output_leave (?f c) ?a] else [])"
      "consistent rest (?f c, fst (snd c), snd (snd c))"
      "\<And>s. s \<in> set rest \<Longrightarrow> bit (active_outputs (?f c)) (nat (so_index s)) = bit (active_outputs (fst c)) (nat (so_index s))"
      "buf_node (?f c) = buf_node (fst c)"
      by (simp_all add: consistent_def)
  qed
  have d1: "buffer_addrs_distinct (scene_buffers (scene_tree scene1))"
  proof -
    have "map (\<lambda>c. node_addr (buf_node (fst c))) (scene_buffers (scene_tree scene1)) =
          map (\<lambda>c. node_addr (buf_node (fst c))) ?bs"
      unfolding bs1 by (simp add: stepc(4) comp_def)
    with Cons.prems(3) show ?thesis by (simp add: buffer_addrs_distinct_def)
  qed
  have c1: "list_all (consistent rest) (scene_buffers (scene_tree scene1))"
    unfolding bs1 using stepc(2) by (simp add: list_all_iff)
  have o1: "scene_outputs scene1 = rest" by (simp add: scene1_def)
  from Cons.IH[OF wf_rest o1 d1 c1 rest_run] have
    IH1: "scene_outputs scene' = []"
    and IH0: "(\<exists>h cs. scene_tree scene' = Tree h cs) = (\<exists>h cs. scene_tree scene1 = Tree h cs)"
    and IH2: "teardown_order (scene_tree scene') = teardown_order (scene_tree scene1)"
    and IH3: "filter is_destroy_or_free evs2 = []"
    and IH4: "\<And>n s. s \<notin> so_addr ` set rest \<Longrightarrow> output_leave_count evs2 n s = 0"
    and IH5: "\<And>c s. c \<in> set (scene_buffers (scene_tree scene1)) \<Longrightarrow> s \<in> set rest \<Longrightarrow>
            output_leave_count evs2 (node_addr (buf_node (fst c))) (so_addr s) =
              (if bit (active_outputs (fst c)) (nat (so_index s)) then 1 else 0)"
    by blast+
  have t: "teardown_order (scene_tree scene') = teardown_order (scene_tree scene)"
    using IH2 by (simp add: scene1_def root_update_teardown)
  have g_shape: "filter P (?g c) = []" if "\<And>s a. \<not> P (Output_leave s a)" and "c \<in> set ?bs" for P c
    using stepc(1)[OF that(2)] that(1) by simp
  have f3: "filter is_destroy_or_free evs = []"
    unfolding evs evs1_def ev_upd
    by (simp add: IH3 filter_concat concat_filter_none[where Q = is_destroy_or_free] g_shape)
  have cnt1: "output_leave_count evs1 n s =
      length (concat (map (\<lambda>c. filter (is_leave_for n s) (?g c)) ?bs))" for n s
    by (simp add: evs1_def ev_upd output_leave_count_def filter_concat comp_def)
  have other: "output_leave_count evs1 n s = 0" if "s \<noteq> ?a" for n s
  proof -
    have "concat (map (\<lambda>c. filter (is_leave_for n s) (?g c)) ?bs) = []"
      by (rule concat_filter_none) (use that stepc(1) in auto)
    then show ?thesis by (simp add: cnt1)
  qed
  have f4: "output_leave_count evs n s = 0" if "s \<notin> so_addr ` set (so # rest)" for n s
    using that other[of s n] IH4[of s n] by (simp add: evs)
  have f5: "output_leave_count evs (node_addr (buf_node (fst c))) (so_addr s) =
              (if bit (active_outputs (fst c)) (nat (so_index s)) then 1 else 0)"
    if c: "c \<in> set ?bs" and s: "s \<in> set (so # rest)" for c s
  proof (cases "s = so")
    case True
    have "?a \<notin> so_addr ` set rest" using dist by simp
    then have "output_leave_count evs2 (node_addr (buf_node (fst c))) ?a = 0" by (rule IH4)
    moreover have "output_leave_count evs1 (node_addr (buf_node (fst c))) ?a =
        (if bit (active_outputs (fst c)) (nat (so_index so)) then 1 else 0)"
      unfolding cnt1
      by (rule concat_filter_one[where key = "\<lambda>c. node_addr (buf_node (fst c))"
            and P = "\<lambda>c. bit (active_outputs (fst c)) (nat (so_index so))",
            OF Cons.prems(3)[unfolded buffer_addrs_distinct_def] c])
        (simp add: stepc(1,4))
    ultimately show ?thesis using True by (simp add: evs)
  next
    case False
    with s have s': "s \<in> set rest" by simp
    with dist have "so_addr s \<noteq> ?a" by simp (metis imageI)
    then have "output_leave_count evs1 (node_addr (buf_node (fst c))) (so_addr s) = 0" by (rule other)
    moreover have "(?f c, fst (snd c), snd (snd c)) \<in> set (scene_buffers (scene_tree scene1))"
      unfolding bs1 using c by simp
    from IH5[OF this s'] have "output_leave_count evs2 (node_addr (buf_node (fst c))) (so_addr s) =
        (if bit (active_outputs (fst c)) (nat (so_index s)) then 1 else 0)"
      by (simp add: stepc(3,4)[OF c] s')
    ultimately show ?thesis by (simp add: evs)
  qed
  have t0: "(\<exists>h cs. scene_tree scene' = Tree h cs) = (\<exists>h cs. scene_tree scene = Tree h cs)"
    unfolding IH0 by (simp add: scene1_def root_update_is_tree)
  from IH1 t0 t f3 f4 f5 show ?case by blast
qed


lemma destroy_rec_no_leaves_without_outputs:
  "filter (is_leave_for a s) (scene_node_destroy_rec [] up n) = []"
  "filter (is_leave_for a s) (destroy_children [] up h cs) = []"
  unfolding destroy_rec_leaves[where lx = 0 and ly = 0]
  by (rule concat_filter_none, simp)+

lemma filter_nil_not_mem: "filter P xs = [] \<Longrightarrow> P x \<Longrightarrow> x \<notin> set xs"
  by (auto simp: filter_empty_conv)

text \<open>C6. \<open>wlr_scene_node_destroy\<close> of a subtree (the scene root included) emits the
  destroy signal of every node before the teardown of its children and frees the node
  after it: the destroy and free events of the trace are exactly the nested order
  "destroy signal, children one after the other, free", so the destroy signals come in
  pre-order. For every buffer node of the subtree and every scene output, \<open>output_leave\<close> is
  emitted once when the bit of the output is set in the node's \<open>active_outputs\<close> and not at
  all otherwise, and none of these signals follows the moment the node is freed. The scene
  is well formed: the outputs list is well formed, the nodes of the subtree are distinct
  objects, and the \<open>active_outputs\<close> of every buffer node agree with the outputs (the
  bit of an output is set exactly when the node intersects it, and no bit is set outside
  the indices of the outputs, so that every set bit belongs to one output).\<close>

theorem destroy_order_and_leaves:
  assumes wf: "outputs_wf (scene_outputs scene)"
    and ptr: "scene_tree scene = scene_of n up"
    and dist: "distinct (node_addrs n)"
    and cons: "list_all (consistent (scene_outputs scene)) (scene_buffers (scene_tree scene))"
    and run: "wlr_scene_node_destroy scene (Some (n, up)) = (r, evs)"
  shows "filter is_destroy_or_free evs = teardown_order n \<and>
         destroy_signals evs = node_addrs n \<and>
         list_all (\<lambda>c. list_all (\<lambda>so.
             output_leave_count evs (node_addr (buf_node (fst c))) (so_addr so) =
               (if bit (active_outputs (fst c)) (nat (so_index so)) then 1 else 0) \<and>
             Free (node_addr (buf_node (fst c))) \<in> set evs \<and>
             output_leave_count (after_free (node_addr (buf_node (fst c))) evs)
               (node_addr (buf_node (fst c))) (so_addr so) = 0)
           (scene_outputs scene))
           (buffers_at n (fst (wlr_scene_node_coords (n, up))) (fst (snd (wlr_scene_node_coords (n, up)))))"
proof -
  let ?outs = "scene_outputs scene"
  let ?bs = "buffers_at n (fst (wlr_scene_node_coords (n, up))) (fst (snd (wlr_scene_node_coords (n, up))))"
  have main: "filter is_destroy_or_free evs = teardown_order n \<and>
      (\<forall>c\<in>set ?bs. \<forall>so\<in>set ?outs.
         output_leave_count evs (node_addr (buf_node (fst c))) (so_addr so) =
           (if bit (active_outputs (fst c)) (nat (so_index so)) then 1 else 0) \<and>
         freed_once (node_addr (buf_node (fst c))) (so_addr so) evs)"
  proof (cases "\<exists>h cs. n = Tree h cs \<and> up = []")
    case False
    then have evs: "evs = scene_node_destroy_rec ?outs up n"
      using run by (auto simp: wlr_scene_node_destroy_def split: list.splits crumb.splits scene_node.splits)
    have "output_leave_count evs (node_addr (buf_node (fst c))) (so_addr so) =
           (if bit (active_outputs (fst c)) (nat (so_index so)) then 1 else 0) \<and>
         freed_once (node_addr (buf_node (fst c))) (so_addr so) evs"
      if c: "c \<in> set ?bs" and so: "so \<in> set ?outs" for c so
    proof -
      from c have c': "(fst c, fst (snd c), snd (snd c)) \<in> set ?bs" by simp
      from buffers_at_addrs(1)[OF c'] have "node_addr (buf_node (fst c)) \<in> set (node_addrs n)" .
      from destroy_rec_freed_once(1)[OF dist this] destroy_rec_leave_count[OF wf dist c' so]
      show ?thesis by (simp add: evs)
    qed
    then show ?thesis by (simp add: evs destroy_rec_teardown)
  next
    case True
    then obtain h cs where n: "n = Tree h cs" and up: "up = []" by blast
    have tree: "scene_tree scene = Tree h cs" using ptr by (simp add: n up)
    obtain scene1 evs3 where d: "destroy_scene_outputs scene ?outs = (scene1, evs3)" by force
    have bs: "?bs = scene_buffers (scene_tree scene)"
      by (simp add: n up tree scene_buffers_def wlr_scene_node_coords_def)
    have bd: "buffer_addrs_distinct (scene_buffers (scene_tree scene))"
      unfolding bs[symmetric] using dist by (rule buffers_at_distinct)
    from destroy_scene_outputs_leaves[OF wf refl bd cons d] have
      o1: "scene_outputs scene1 = []"
      and t0: "(\<exists>h cs. scene_tree scene1 = Tree h cs) = (\<exists>h cs. scene_tree scene = Tree h cs)"
      and t1: "teardown_order (scene_tree scene1) = teardown_order (Tree h cs)"
      and f3: "filter is_destroy_or_free evs3 = []"
      and l3: "\<And>c so. c \<in> set ?bs \<Longrightarrow> so \<in> set ?outs \<Longrightarrow>
            output_leave_count evs3 (node_addr (buf_node (fst c))) (so_addr so) =
              (if bit (active_outputs (fst c)) (nat (so_index so)) then 1 else 0)"
      unfolding bs tree by blast+
    from t0 obtain h1 cs1 where tree1: "scene_tree scene1 = Tree h1 cs1"
      by (auto simp: tree)
    from t1 have h1: "node_addr h1 = node_addr h" and tc: "teardown_children cs1 = teardown_children cs"
      by (simp_all add: tree1)
    from tc have ca: "children_addrs cs1 = children_addrs cs"
      using teardown_preorder(2)[of cs1] teardown_preorder(2)[of cs] by simp
    let ?evs1 = "scene_node_damage_whole ?outs (Tree h cs, [])"
    let ?evs4 = "destroy_children [] [] h1 cs1"
    have evs: "evs = ?evs1 @ [Signal_destroy (node_addr h)] @ evs3 @ ?evs4 @ [Free (node_addr h)]"
      using run by (simp add: wlr_scene_node_destroy_def n up d tree1 o1)
    have order: "filter is_destroy_or_free evs = teardown_order n"
      by (simp add: evs filter_damage_whole f3 destroy_rec_teardown tc n)
    have "output_leave_count evs (node_addr (buf_node (fst c))) (so_addr so) =
           (if bit (active_outputs (fst c)) (nat (so_index so)) then 1 else 0) \<and>
         freed_once (node_addr (buf_node (fst c))) (so_addr so) evs"
      if c: "c \<in> set ?bs" and so: "so \<in> set ?outs" for c so
    proof -
      let ?a = "node_addr (buf_node (fst c))"
      have cnt: "output_leave_count evs ?a (so_addr so) =
           (if bit (active_outputs (fst c)) (nat (so_index so)) then 1 else 0)"
        using l3[OF c so]
        by (simp add: evs output_leave_count_def filter_damage_whole
            destroy_rec_no_leaves_without_outputs)
      from c have "(fst c, fst (snd c), snd (snd c)) \<in> set (buffers_at_children cs
          (fst (wlr_scene_node_coords (n, up))) (fst (snd (wlr_scene_node_coords (n, up)))))"
        by (simp add: n)
      from buffers_at_addrs(2)[OF this] have a: "?a \<in> set (children_addrs cs1)" by (simp add: ca)
      have dc: "distinct (children_addrs cs1)" using dist by (simp add: ca n)
      have "freed_once ?a (so_addr so) ?evs4"
        using dc a by (rule destroy_rec_freed_once(2))
      then have "freed_once ?a (so_addr so) (?evs4 @ [Free (node_addr h)])"
        by (rule freed_once_append) simp
      moreover have "Free ?a \<notin> set (?evs1 @ [Signal_destroy (node_addr h)] @ evs3)"
        using filter_nil_not_mem[OF f3, of "Free ?a"] by (simp add: damage_whole_no_free)
      ultimately have "freed_once ?a (so_addr so)
          ((?evs1 @ [Signal_destroy (node_addr h)] @ evs3) @ ?evs4 @ [Free (node_addr h)])"
        by (rule freed_once_prepend)
      with cnt show ?thesis by (simp add: evs)
    qed
    with order show ?thesis by blast
  qed
  then have "filter is_destroy_or_free evs = teardown_order n" by blast
  then have "destroy_signals evs = node_addrs n"
    using destroy_signals_filter[of evs] teardown_preorder(1)[of n] by simp
  with main show ?thesis
    unfolding list_all_iff using freed_once_after_free by blast
qed


theorem destroy_order_and_leaves_witness:
  "outputs_wf (scene_outputs destroy_scene) \<and>
   scene_tree destroy_scene = scene_of destroy_node example_up \<and>
   distinct (node_addrs destroy_node) \<and>
   destroy_signals (snd (wlr_scene_node_destroy destroy_scene (Some (destroy_node, example_up)))) =
     [3, 1, 2] \<and>
   filter is_destroy_or_free
     (snd (wlr_scene_node_destroy destroy_scene (Some (destroy_node, example_up)))) =
     [Signal_destroy 3, Signal_destroy 1, Free 1, Signal_destroy 2, Free 2, Free 3] \<and>
   output_leave_count
     (snd (wlr_scene_node_destroy destroy_scene (Some (destroy_node, example_up)))) 1 100 = 1 \<and>
   output_leave_count
     (snd (wlr_scene_node_destroy destroy_scene (Some (destroy_node, example_up)))) 1 101 = 1"
proof -
  let ?run = "wlr_scene_node_destroy destroy_scene (Some (destroy_node, example_up))"
  have wf: "outputs_wf (scene_outputs destroy_scene)"
    using s3_outputs_wf by (simp add: destroy_scene_def)
  have ptr: "scene_tree destroy_scene = scene_of destroy_node example_up"
    by (simp add: destroy_scene_def example_up_def)
  have dist: "distinct (node_addrs destroy_node)"
    by (simp add: destroy_node_def s3_buffer_placed_def s3_buffer_def example_rect_def)
  have bs: "scene_buffers (scene_tree destroy_scene) = [(s3_buffer_placed, 1900, 500)]"
    by (simp add: scene_buffers_def destroy_scene_def destroy_node_def s3_buffer_placed_def
        s3_buffer_def)
  have cons: "list_all (consistent (scene_outputs destroy_scene)) (scene_buffers (scene_tree destroy_scene))"
    unfolding bs using update_outputs_bits_general[OF s3_outputs_wf s3_place]
    by (simp add: consistent_def destroy_scene_def)
  have at: "buffers_at destroy_node (fst (wlr_scene_node_coords (destroy_node, example_up)))
      (fst (snd (wlr_scene_node_coords (destroy_node, example_up)))) = [(s3_buffer_placed, 1900, 500)]"
    by (simp add: destroy_node_def wlr_scene_node_coords_def example_up_def s3_buffer_placed_def
        s3_buffer_def)
  have bits: "bit (active_outputs s3_buffer_placed) (nat (so_index s3_output0))"
    "bit (active_outputs s3_buffer_placed) (nat (so_index s3_output1))"
    by (simp_all add: s3_buffer_placed_def s3_output0_def s3_output1_def bit_numeral_Bit1_Suc_iff
        bit_1_iff)
  have run: "?run = (fst ?run, snd ?run)" by simp
  from destroy_order_and_leaves[OF wf ptr dist cons run]
  show ?thesis
    using wf ptr dist bits
    by (simp add: at)
      (simp add: destroy_scene_def destroy_node_def s3_buffer_placed_def s3_buffer_def
        example_rect_def s3_output0_def s3_output1_def)
qed

section \<open>Size of a buffer node\<close>

text \<open>C10. \<open>scene_node_get_size\<close> returns the explicit destination size of a buffer node
  exactly when \<open>dst_width\<close> and \<open>dst_height\<close> are both strictly positive. In every other
  case (one of them positive, both zero, or negative) it returns the intrinsic size of the
  buffer, with width and height exchanged when the transform has the 90-degree bit, and
  (0, 0) when there is no buffer.\<close>

theorem scene_node_get_size_buffer:
  "scene_node_get_size (Buffer b) =
     (if 0 < dst_width b \<and> 0 < dst_height b then (dst_width b, dst_height b)
      else if buffer b = None then (0, 0)
      else if transform b \<in> {WL_OUTPUT_TRANSFORM_90, WL_OUTPUT_TRANSFORM_270,
                WL_OUTPUT_TRANSFORM_FLIPPED_90, WL_OUTPUT_TRANSFORM_FLIPPED_270}
      then (buffer_height (the (buffer b)), buffer_width (the (buffer b)))
      else (buffer_width (the (buffer b)), buffer_height (the (buffer b))))"
  by (cases "transform b") (auto simp: transform_has_90_def split: option.splits)

section \<open>Membership after a geometric mutation\<close>

text \<open>Every geometric mutation ends with a recomputation of the membership of the mutated
  subtree, or of the whole tree when an output has changed. So the half of the invariant
  that is about \<open>active_outputs\<close> is kept by every one of them; the mutations of a node
  need it beforehand for the rest of the tree, the listeners of an output need nothing
  but a well-formed list of outputs.\<close>

lemma node_mutations_keep_bits:
  assumes wf: "outputs_wf outs" and inv: "scene_bits outs (scene_of n up)"
  shows "scene_bits outs
           (scene_of (fst (fst (wlr_scene_node_set_position outs (n, up) x y)))
                     (snd (fst (wlr_scene_node_set_position outs (n, up) x y))))"
    and "wlr_scene_node_reparent outs (n, up) a = Inr ((n', up'), evs) \<Longrightarrow>
         scene_bits outs (scene_of n' up')"
proof -
  note upd = recomputed_bits[OF wf]
  from inv have inv': "scene_all (bits_ok outs) (scene_of n up)" by (simp add: scene_bits_all)
  show "scene_bits outs
           (scene_of (fst (fst (wlr_scene_node_set_position outs (n, up) x y)))
                     (snd (fst (wlr_scene_node_set_position outs (n, up) x y))))"
    unfolding scene_bits_all using upd inv' by (rule set_position_all)
  show "scene_bits outs (scene_of n' up')"
    if "wlr_scene_node_reparent outs (n, up) a = Inr ((n', up'), evs)"
    unfolding scene_bits_all using upd inv' that by (rule reparent_all)
qed

lemma buffer_mutations_keep_bits:
  assumes wf: "outputs_wf outs" and inv: "scene_bits outs (scene_of (Buffer sb) up)"
  shows "scene_bits outs
           (scene_of (Buffer (fst (fst (wlr_scene_buffer_set_dest_size outs (sb, up) w h))))
                     (snd (fst (wlr_scene_buffer_set_dest_size outs (sb, up) w h))))"
    and "scene_bits outs
           (scene_of (Buffer (fst (fst (wlr_scene_buffer_set_transform outs (sb, up) t))))
                     (snd (fst (wlr_scene_buffer_set_transform outs (sb, up) t))))"
    and "wlr_scene_buffer_set_buffer_with_damage rto outs (sb, up) buf damage = Inr ((sb', up'), evs) \<Longrightarrow>
         scene_bits outs (scene_of (Buffer sb') up')"
    and "\<exists>sb' evs. wlr_scene_buffer_set_buffer rto outs (sb, up) buf = Inr ((sb', up), evs) \<and>
           scene_bits outs (scene_of (Buffer sb') up)"
proof -
  note upd = recomputed_bits[OF wf]
  from inv have inv': "scene_all (bits_ok outs) (scene_of (Buffer sb) up)" by (simp add: scene_bits_all)
  show "scene_bits outs
           (scene_of (Buffer (fst (fst (wlr_scene_buffer_set_dest_size outs (sb, up) w h))))
                     (snd (fst (wlr_scene_buffer_set_dest_size outs (sb, up) w h))))"
    unfolding scene_bits_all using upd inv' by (rule set_dest_size_all)
  show "scene_bits outs
           (scene_of (Buffer (fst (fst (wlr_scene_buffer_set_transform outs (sb, up) t))))
                     (snd (fst (wlr_scene_buffer_set_transform outs (sb, up) t))))"
    unfolding scene_bits_all using upd inv' by (rule set_transform_all)
  show d: "scene_bits outs (scene_of (Buffer sb') up')"
    if "wlr_scene_buffer_set_buffer_with_damage rto outs (sb, up) buf damage = Inr ((sb', up'), evs)"
    for rto buf damage sb' up' evs
    unfolding scene_bits_all using upd inv' that by (rule set_buffer_with_damage_all)
  from set_buffer_returns[of rto outs sb up buf] obtain sb1 evs1 where
    r: "wlr_scene_buffer_set_buffer rto outs (sb, up) buf = Inr ((sb1, up), evs1)" by blast
  then have "wlr_scene_buffer_set_buffer_with_damage rto outs (sb, up) buf None = Inr ((sb1, up), evs1)"
    by (simp add: wlr_scene_buffer_set_buffer_def)
  from d[OF this] r
  show "\<exists>sb' evs. wlr_scene_buffer_set_buffer rto outs (sb, up) buf = Inr ((sb', up), evs) \<and>
           scene_bits outs (scene_of (Buffer sb') up)" by blast
qed

lemma output_mutations_give_bits:
  assumes wf: "outputs_wf (scene_outputs scene)"
  shows "scene_bits (scene_outputs (fst (scene_output_handle_mode scene)))
           (scene_tree (fst (scene_output_handle_mode scene)))"
    and "scene_bits (scene_outputs (fst (scene_output_handle_commit scene True)))
           (scene_tree (fst (scene_output_handle_commit scene True)))"
    and "find (\<lambda>so. so_addr so = a) (scene_outputs scene) = Some so \<Longrightarrow>
         so_x so \<noteq> lx \<or> so_y so \<noteq> ly \<Longrightarrow>
         outputs_wf (scene_outputs (fst (wlr_scene_output_set_position scene a lx ly))) \<and>
         scene_bits (scene_outputs (fst (wlr_scene_output_set_position scene a lx ly)))
           (scene_tree (fst (wlr_scene_output_set_position scene a lx ly)))"
    and "scene_bits (scene_outputs scene) (scene_tree scene) \<Longrightarrow>
         outputs_wf (scene_outputs (fst (wlr_scene_output_set_position scene a lx ly))) \<and>
         scene_bits (scene_outputs (fst (wlr_scene_output_set_position scene a lx ly)))
           (scene_tree (fst (wlr_scene_output_set_position scene a lx ly)))"
  using wf outputs_wf_move[OF wf, where a=a and lx=lx and ly=ly]
  by (auto simp: scene_output_handle_mode_def scene_output_handle_commit_def
      wlr_scene_output_set_position_def Let_def split_beta root_update_bits
      split: option.splits)

text \<open>The whole invariant, primary output included, is kept in the same way when the area
  of every viewport fits a C \<open>int\<close>, so that no overlap that the first loop computes
  overflows.\<close>

lemma node_mutations_keep_membership:
  assumes wf: "outputs_wf outs" and fit: "outputs_fit outs"
    and inv: "scene_membership outs (scene_of n up)"
  shows "scene_membership outs
           (scene_of (fst (fst (wlr_scene_node_set_position outs (n, up) x y)))
                     (snd (fst (wlr_scene_node_set_position outs (n, up) x y))))"
    and "wlr_scene_node_reparent outs (n, up) a = Inr ((n', up'), evs) \<Longrightarrow>
         scene_membership outs (scene_of n' up')"
proof -
  note upd = recomputed_membership[OF wf fit]
  from inv have inv': "scene_all (membership_ok outs) (scene_of n up)"
    by (simp add: scene_membership_all)
  show "scene_membership outs
           (scene_of (fst (fst (wlr_scene_node_set_position outs (n, up) x y)))
                     (snd (fst (wlr_scene_node_set_position outs (n, up) x y))))"
    unfolding scene_membership_all using upd inv' by (rule set_position_all)
  show "scene_membership outs (scene_of n' up')"
    if "wlr_scene_node_reparent outs (n, up) a = Inr ((n', up'), evs)"
    unfolding scene_membership_all using upd inv' that by (rule reparent_all)
qed

lemma buffer_mutations_keep_membership:
  assumes wf: "outputs_wf outs" and fit: "outputs_fit outs"
    and inv: "scene_membership outs (scene_of (Buffer sb) up)"
  shows "scene_membership outs
           (scene_of (Buffer (fst (fst (wlr_scene_buffer_set_dest_size outs (sb, up) w h))))
                     (snd (fst (wlr_scene_buffer_set_dest_size outs (sb, up) w h))))"
    and "scene_membership outs
           (scene_of (Buffer (fst (fst (wlr_scene_buffer_set_transform outs (sb, up) t))))
                     (snd (fst (wlr_scene_buffer_set_transform outs (sb, up) t))))"
    and "wlr_scene_buffer_set_buffer_with_damage rto outs (sb, up) buf damage = Inr ((sb', up'), evs) \<Longrightarrow>
         scene_membership outs (scene_of (Buffer sb') up')"
    and "\<exists>sb' evs. wlr_scene_buffer_set_buffer rto outs (sb, up) buf = Inr ((sb', up), evs) \<and>
           scene_membership outs (scene_of (Buffer sb') up)"
proof -
  note upd = recomputed_membership[OF wf fit]
  from inv have inv': "scene_all (membership_ok outs) (scene_of (Buffer sb) up)"
    by (simp add: scene_membership_all)
  show "scene_membership outs
           (scene_of (Buffer (fst (fst (wlr_scene_buffer_set_dest_size outs (sb, up) w h))))
                     (snd (fst (wlr_scene_buffer_set_dest_size outs (sb, up) w h))))"
    unfolding scene_membership_all using upd inv' by (rule set_dest_size_all)
  show "scene_membership outs
           (scene_of (Buffer (fst (fst (wlr_scene_buffer_set_transform outs (sb, up) t))))
                     (snd (fst (wlr_scene_buffer_set_transform outs (sb, up) t))))"
    unfolding scene_membership_all using upd inv' by (rule set_transform_all)
  show d: "scene_membership outs (scene_of (Buffer sb') up')"
    if "wlr_scene_buffer_set_buffer_with_damage rto outs (sb, up) buf damage = Inr ((sb', up'), evs)"
    for rto buf damage sb' up' evs
    unfolding scene_membership_all using upd inv' that by (rule set_buffer_with_damage_all)
  from set_buffer_returns[of rto outs sb up buf] obtain sb1 evs1 where
    r: "wlr_scene_buffer_set_buffer rto outs (sb, up) buf = Inr ((sb1, up), evs1)" by blast
  then have "wlr_scene_buffer_set_buffer_with_damage rto outs (sb, up) buf None = Inr ((sb1, up), evs1)"
    by (simp add: wlr_scene_buffer_set_buffer_def)
  from d[OF this] r
  show "\<exists>sb' evs. wlr_scene_buffer_set_buffer rto outs (sb, up) buf = Inr ((sb', up), evs) \<and>
           scene_membership outs (scene_of (Buffer sb') up)" by blast
qed

lemma output_mutations_give_membership:
  assumes wf: "outputs_wf (scene_outputs scene)" and fit: "outputs_fit (scene_outputs scene)"
  shows "scene_membership (scene_outputs (fst (scene_output_handle_mode scene)))
           (scene_tree (fst (scene_output_handle_mode scene)))"
    and "scene_membership (scene_outputs (fst (scene_output_handle_commit scene True)))
           (scene_tree (fst (scene_output_handle_commit scene True)))"
    and "find (\<lambda>so. so_addr so = a) (scene_outputs scene) = Some so \<Longrightarrow>
         so_x so \<noteq> lx \<or> so_y so \<noteq> ly \<Longrightarrow>
         outputs_wf (scene_outputs (fst (wlr_scene_output_set_position scene a lx ly))) \<and>
         outputs_fit (scene_outputs (fst (wlr_scene_output_set_position scene a lx ly))) \<and>
         scene_membership (scene_outputs (fst (wlr_scene_output_set_position scene a lx ly)))
           (scene_tree (fst (wlr_scene_output_set_position scene a lx ly)))"
    and "scene_membership (scene_outputs scene) (scene_tree scene) \<Longrightarrow>
         outputs_wf (scene_outputs (fst (wlr_scene_output_set_position scene a lx ly))) \<and>
         outputs_fit (scene_outputs (fst (wlr_scene_output_set_position scene a lx ly))) \<and>
         scene_membership (scene_outputs (fst (wlr_scene_output_set_position scene a lx ly)))
           (scene_tree (fst (wlr_scene_output_set_position scene a lx ly)))"
  using wf fit outputs_wf_move[OF wf, where a=a and lx=lx and ly=ly]
    outputs_fit_move[OF fit, where a=a and lx=lx and ly=ly]
  by (auto simp: scene_output_handle_mode_def scene_output_handle_commit_def
      wlr_scene_output_set_position_def Let_def split_beta root_update_membership
      split: option.splits)

text \<open>Scenario S3 as an instance: the buffer node that is on both outputs is moved to
  (500, 500), or reparented under the tree at (100, 0), and satisfies the invariant
  afterwards.\<close>

lemma s3_tree_membership:
  "scene_membership [s3_output0, s3_output1] (scene_of (Buffer s3_buffer_placed) reparent_up)"
proof -
  have "scene_buffers (scene_of (Buffer s3_buffer_placed) reparent_up) = [(s3_buffer_placed, 1900, 500)]"
    by (simp add: scene_buffers_def reparent_up_def reparent_target_def s3_buffer_placed_def s3_buffer_def)
  moreover have "overlap_fits (buffer_box s3_buffer 1900 500)
      (filter (\<lambda>so. None \<noteq> Some (so_addr so)) [s3_output0, s3_output1])"
    using outputs_fit_overlap[OF s3_outputs_fit] by simp
  ultimately show ?thesis
    using update_outputs_membership_general[OF s3_outputs_wf _ s3_place]
    by (simp add: scene_membership_def)
qed

lemma s3_set_position:
  "fst (wlr_scene_node_set_position [s3_output0, s3_output1] (Buffer s3_buffer_placed, reparent_up) 500 500) =
     (Buffer (s3_buffer_moved\<lparr>buf_node := \<lparr>node_addr = 1, node_x = 500, node_y = 500, node_enabled = True\<rparr>\<rparr>),
      reparent_up)"
  by (simp add: wlr_scene_node_set_position_def s3_buffer_placed_def s3_buffer_moved_def s3_buffer_def
      reparent_up_def reparent_target_def scene_node_update_outputs_def wlr_scene_node_coords_def
      scene_buffer_update_outputs_def s3_output0_def s3_output1_def update_outputs_primary.simps c_int_mul_def
      output_box_def output_mask_def wlr_box_intersection_def wlr_box_empty_def Let_def
      transform_has_90_def split_beta)

lemma s3_reparent:
  "\<exists>sb' up' evs. wlr_scene_node_reparent [s3_output0, s3_output1] (Buffer s3_buffer_placed, reparent_up) (Some 4)
      = Inr ((Buffer sb', up'), evs) \<and> active_outputs sb' = 2 \<and> primary_output sb' = Some 101"
  by (simp add: wlr_scene_node_reparent_def s3_buffer_placed_def s3_buffer_def
      reparent_up_def reparent_target_def scene_node_update_outputs_def wlr_scene_node_coords_def
      scene_buffer_update_outputs_def s3_output0_def s3_output1_def update_outputs_primary.simps c_int_mul_def
      output_box_def output_mask_def wlr_box_intersection_def wlr_box_empty_def Let_def
      transform_has_90_def split_beta scene_node_damage_whole_def scene_of.simps)

lemma s3_mutations_keep_membership:
  "scene_membership [s3_output0, s3_output1]
     (scene_of (Buffer (s3_buffer_moved\<lparr>buf_node := \<lparr>node_addr = 1, node_x = 500, node_y = 500, node_enabled = True\<rparr>\<rparr>))
        reparent_up) \<and>
   (\<exists>sb' up' evs.
      wlr_scene_node_reparent [s3_output0, s3_output1] (Buffer s3_buffer_placed, reparent_up) (Some 4)
        = Inr ((Buffer sb', up'), evs) \<and>
      active_outputs sb' = 2 \<and> primary_output sb' = Some 101 \<and>
      scene_membership [s3_output0, s3_output1] (scene_of (Buffer sb') up'))"
proof -
  note keep = node_mutations_keep_membership[OF s3_outputs_wf s3_outputs_fit s3_tree_membership]
  from s3_reparent obtain sb' up' evs where
    run: "wlr_scene_node_reparent [s3_output0, s3_output1] (Buffer s3_buffer_placed, reparent_up) (Some 4)
        = Inr ((Buffer sb', up'), evs)"
    and vals: "active_outputs sb' = 2" "primary_output sb' = Some 101"
    by blast
  from keep(2)[OF run] run vals have "\<exists>sb' up' evs.
      wlr_scene_node_reparent [s3_output0, s3_output1] (Buffer s3_buffer_placed, reparent_up) (Some 4)
        = Inr ((Buffer sb', up'), evs) \<and>
      active_outputs sb' = 2 \<and> primary_output sb' = Some 101 \<and>
      scene_membership [s3_output0, s3_output1] (scene_of (Buffer sb') up')"
    by blast
  moreover from keep(1)[of 500 500] have "scene_membership [s3_output0, s3_output1]
     (scene_of (Buffer (s3_buffer_moved\<lparr>buf_node := \<lparr>node_addr = 1, node_x = 500, node_y = 500, node_enabled = True\<rparr>\<rparr>))
        reparent_up)"
    by (simp add: s3_set_position)
  ultimately show ?thesis by blast
qed

text \<open>The first loop of \<open>scene_buffer_update_outputs\<close> on the 50000x50000 output: a node of
  100x100 gets the output as its primary output, a node of 50000x50000 gets none, because
  the overlap 2500000000 is computed as -1794967296, which is not larger than 0.\<close>

lemma big_outputs_wf: "outputs_wf [big_output]"
  by (simp add: outputs_wf_def big_output_def)

lemma big_buffer_membership:
  "scene_membership [big_output] (scene_of (Buffer big_buffer) example_up)"
proof -
  have run: "scene_buffer_update_outputs big_buffer 0 0 [big_output] None = (big_buffer, [])"
    by (simp add: scene_buffer_update_outputs_def big_buffer_def big_output_def
        update_outputs_primary.simps c_int_mul_def output_box_def output_mask_def
        wlr_box_intersection_def wlr_box_empty_def Let_def transform_has_90_def)
  have fits: "overlap_fits (buffer_box big_buffer 0 0) (filter (\<lambda>so. None \<noteq> Some (so_addr so)) [big_output])"
    by (simp add: overlap_fits_def overlap_area_def buffer_box_def big_buffer_def big_output_def
        output_box_def wlr_box_intersection_def wlr_box_empty_def Let_def transform_has_90_def)
  have "scene_buffers (scene_of (Buffer big_buffer) example_up) = [(big_buffer, 0, 0)]"
    by (simp add: scene_buffers_def example_up_def big_buffer_def)
  then show ?thesis
    using update_outputs_membership_general[OF big_outputs_wf fits run]
    by (simp add: scene_membership_def)
qed

lemma big_set_dest_size:
  "fst (wlr_scene_buffer_set_dest_size [big_output] (big_buffer, example_up) 50000 50000) =
     (big_buffer_resized, example_up)"
  by (simp add: wlr_scene_buffer_set_dest_size_def big_buffer_resized_def big_buffer_def
      example_up_def scene_buffer_node_update_outputs_def wlr_scene_node_coords_def
      scene_buffer_update_outputs_def big_output_def update_outputs_primary.simps c_int_mul_def
      output_box_def output_mask_def wlr_box_intersection_def wlr_box_empty_def Let_def
      transform_has_90_def split_beta)

lemma big_overlap:
  "intersects (buffer_box big_buffer_resized 0 0) big_output \<and>
   overlap_area (buffer_box big_buffer_resized 0 0) big_output = 2500000000 \<and>
   computed_overlap (buffer_box big_buffer_resized 0 0) big_output = - 1794967296"
  by (simp add: intersects_def overlap_area_def computed_overlap_def c_int_mul_def buffer_box_def
      big_buffer_resized_def big_buffer_def big_output_def output_box_def
      wlr_box_intersection_def wlr_box_empty_def Let_def)

text \<open>
  C1. The claim fails on the code for one half of the invariant. After
  \<open>wlr_scene_buffer_set_dest_size\<close>, a geometric mutation, has given a buffer node the size
  50000x50000 in a well-formed scene with one output of effective resolution 50000x50000,
  where the invariant held before, the node intersects the output and bit 0 of its
  \<open>active_outputs\<close> is set, and its \<open>primary_output\<close> is null although the output
  intersects it with the largest (the only) overlap: the invariant does not hold. The
  product \<open>intersection.width * intersection.height\<close> of two \<open>int\<close>s overflows. The lemmas
  above show that the code keeps the \<open>active_outputs\<close> half of the invariant in every
  case, and the whole invariant whenever the viewport areas fit a C \<open>int\<close>.
\<close>

theorem membership_lost_by_overflow:
  "outputs_wf [big_output] \<and>
   scene_membership [big_output] (scene_of (Buffer big_buffer) example_up) \<and>
   fst (wlr_scene_buffer_set_dest_size [big_output] (big_buffer, example_up) 50000 50000) =
     (big_buffer_resized, example_up) \<and>
   intersects (buffer_box big_buffer_resized 0 0) big_output \<and>
   overlap_area (buffer_box big_buffer_resized 0 0) big_output = 2500000000 \<and>
   bit (active_outputs big_buffer_resized) (nat (so_index big_output)) \<and>
   primary_output big_buffer_resized = None \<and>
   \<not> scene_membership [big_output] (scene_of (Buffer big_buffer_resized) example_up)"
proof -
  have bs: "scene_buffers (scene_of (Buffer big_buffer_resized) example_up) = [(big_buffer_resized, 0, 0)]"
    by (simp add: scene_buffers_def example_up_def big_buffer_resized_def big_buffer_def)
  have p: "primary_output big_buffer_resized = None"
    "bit (active_outputs big_buffer_resized) (nat (so_index big_output))"
    by (simp_all add: big_buffer_resized_def big_buffer_def big_output_def)
  have "\<not> primary_is (buffer_box big_buffer_resized 0 0) [big_output] (primary_output big_buffer_resized)"
    using big_overlap by (simp add: primary_is_def p)
  then have "\<not> scene_membership [big_output] (scene_of (Buffer big_buffer_resized) example_up)"
    by (simp add: scene_membership_def bs membership_ok_def)
  with big_outputs_wf big_buffer_membership big_set_dest_size big_overlap p show ?thesis
    by simp
qed
end
